(* ===== verification/Prelude.thy ===== *)
theory Prelude
  imports Main "HOL-Library.Word" "HOL-Library.List_Lexorder" "HOL-Library.Sublist"
begin

text \<open>
  What every component shares: the machine integers of the Rust code, panics as values,
  and the slice and iterator operations of the standard library that the code calls
  (\<open>windows\<close>, \<open>position\<close>, \<open>split\<close>, \<open>contains\<close>, indexing), with the generic lemmas the
  component theories use. \<open>std_simps\<close> collects the rewrite rules about those operations, \<open>eval_simps\<close> the
  definitions that concrete inputs are evaluated with.
\<close>

named_theorems std_simps \<open>rewrite rules for the standard library operations\<close>

named_theorems eval_simps \<open>definitions unfolded to evaluate concrete inputs\<close>

section \<open>Machine integers and panics\<close>

type_synonym u8 = "8 word"
type_synonym u16 = "16 word"
type_synonym u64 = "64 word"

text \<open>
  A Rust panic unwinds the task that runs it. A computation that may panic returns
  \<open>Inl\<close> of the reason or \<open>Inr\<close> of its value.
\<close>

datatype panic =
    Index_Out_Of_Bounds nat nat \<comment> \<open>the index and the length\<close>
  | Cannot_Remove_Char
  | Unwrap_On_None
  | Unwrap_On_Err

type_synonym 'a may_panic = "panic + 'a"

text \<open>Slice indexing \<open>xs[i]\<close>.\<close>

definition index_at :: "'a list \<Rightarrow> nat \<Rightarrow> 'a may_panic" where
  "index_at xs i =
     (if i < length xs then Inr (xs ! i) else Inl (Index_Out_Of_Bounds i (length xs)))"

lemma index_at_Inr [std_simps]: "i < length xs \<Longrightarrow> index_at xs i = Inr (xs ! i)"
  by (simp add: index_at_def)

lemma index_at_Inl [std_simps]:
  "length xs \<le> i \<Longrightarrow> index_at xs i = Inl (Index_Out_Of_Bounds i (length xs))"
  by (simp add: index_at_def)

definition and_then :: "'a may_panic \<Rightarrow> ('a \<Rightarrow> 'b may_panic) \<Rightarrow> 'b may_panic" where
  "and_then r f = (case r of Inl p \<Rightarrow> Inl p | Inr x \<Rightarrow> f x)"

lemma and_then_simps [simp]:
  "and_then (Inl p) f = Inl p"
  "and_then (Inr x) f = f x"
  by (simp_all add: and_then_def)

lemma and_then_Inr_iff: "and_then r f = Inr y \<longleftrightarrow> (\<exists>x. r = Inr x \<and> f x = Inr y)"
  by (cases r) auto

lemma and_then_Inl_iff:
  "and_then r f = Inl p \<longleftrightarrow> r = Inl p \<or> (\<exists>x. r = Inr x \<and> f x = Inl p)"
  by (cases r) auto

section \<open>Iterator operations\<close>

text \<open>\<open>slice::windows(n)\<close> for \<open>n > 0\<close>: every run of \<open>n\<close> neighbours, in order.\<close>

definition windows :: "nat \<Rightarrow> 'a list \<Rightarrow> 'a list list" where
  "windows n xs = map (\<lambda>i. take n (drop i xs)) [0..<Suc (length xs) - n]"

text \<open>\<open>Iterator::position\<close>: the index of the first element the predicate accepts.\<close>

fun position :: "('a \<Rightarrow> bool) \<Rightarrow> 'a list \<Rightarrow> nat option" where
  "position p [] = None"
| "position p (x # xs) = (if p x then Some 0 else map_option Suc (position p xs))"

lemma position_None_iff: "position p xs = None \<longleftrightarrow> (\<forall>x \<in> set xs. \<not> p x)"
  by (induction xs) auto

lemma position_Some_iff:
  "position p xs = Some i \<longleftrightarrow> i < length xs \<and> p (xs ! i) \<and> (\<forall>j < i. \<not> p (xs ! j))"
proof (induction xs arbitrary: i)
  case Nil
  then show ?case by simp
next
  case (Cons x xs)
  show ?case
    by (cases i) (auto simp: Cons.IH less_Suc_eq_0_disj)
qed

lemma length_windows: "length (windows n xs) = Suc (length xs) - n"
  by (simp add: windows_def)

lemma nth_windows: "i < Suc (length xs) - n \<Longrightarrow> windows n xs ! i = take n (drop i xs)"
  by (simp add: windows_def del: upt_Suc)

text \<open>
  The two together, as the code uses them: where the first occurrence of a non-empty
  pattern starts.
\<close>

definition find_window :: "'a list \<Rightarrow> 'a list \<Rightarrow> nat option" where
  "find_window pat xs = position (\<lambda>w. w = pat) (windows (length pat) xs)"

definition occurs_at :: "'a list \<Rightarrow> 'a list \<Rightarrow> nat \<Rightarrow> bool" where
  "occurs_at pat xs i \<longleftrightarrow> i + length pat \<le> length xs \<and> take (length pat) (drop i xs) = pat"

lemma occurs_at_split:
  "occurs_at pat xs i \<longleftrightarrow> (\<exists>pre post. xs = pre @ pat @ post \<and> length pre = i)"
proof
  assume "occurs_at pat xs i"
  then have "drop i xs = pat @ drop (length pat) (drop i xs)" "length (take i xs) = i"
    unfolding occurs_at_def by (metis append_take_drop_id, simp)
  then have "xs = take i xs @ pat @ drop (length pat) (drop i xs)" "length (take i xs) = i"
    by (metis append_take_drop_id, simp)
  then show "\<exists>pre post. xs = pre @ pat @ post \<and> length pre = i" by blast
next
  assume "\<exists>pre post. xs = pre @ pat @ post \<and> length pre = i"
  then show "occurs_at pat xs i" by (auto simp: occurs_at_def)
qed

lemma occurs_at_nth: "occurs_at (x # pat) xs i \<Longrightarrow> xs ! i = x"
  by (auto simp: occurs_at_split)

lemma find_window_Some_iff:
  "find_window pat xs = Some i \<longleftrightarrow> occurs_at pat xs i \<and> (\<forall>j < i. \<not> occurs_at pat xs j)"
proof -
  have "i < Suc (length xs) - length pat \<longleftrightarrow> i + length pat \<le> length xs" for i
    by arith
  then show ?thesis
    by (auto simp: find_window_def position_Some_iff length_windows nth_windows occurs_at_def)
qed

lemma find_window_None_iff: "find_window pat xs = None \<longleftrightarrow> (\<forall>i. \<not> occurs_at pat xs i)"
proof
  assume "find_window pat xs = None"
  show "\<forall>i. \<not> occurs_at pat xs i"
  proof (intro allI notI)
    fix i
    assume "occurs_at pat xs i"
    then have "occurs_at pat xs (LEAST i. occurs_at pat xs i)" by (rule LeastI)
    then have "find_window pat xs = Some (LEAST i. occurs_at pat xs i)"
      by (auto simp: find_window_Some_iff dest: not_less_Least)
    with \<open>find_window pat xs = None\<close> show False by simp
  qed
next
  assume none: "\<forall>i. \<not> occurs_at pat xs i"
  then show "find_window pat xs = None"
    by (cases "find_window pat xs") (auto simp: find_window_Some_iff)
qed

text \<open>A found occurrence is found again when more input is appended.\<close>

lemma occurs_at_append: "occurs_at pat xs i \<Longrightarrow> occurs_at pat (xs @ ys) i"
  by (simp add: occurs_at_def)

lemma occurs_at_append_inside:
  "i + length pat \<le> length xs \<Longrightarrow> occurs_at pat (xs @ ys) i = occurs_at pat xs i"
  by (simp add: occurs_at_def)

lemma find_window_append:
  assumes "find_window pat xs = Some i"
  shows "find_window pat (xs @ ys) = Some i"
proof -
  from assms have i: "occurs_at pat xs i" and first: "\<forall>j < i. \<not> occurs_at pat xs j"
    by (simp_all add: find_window_Some_iff)
  from i have "i + length pat \<le> length xs" by (simp add: occurs_at_def)
  with first have "\<forall>j < i. \<not> occurs_at pat (xs @ ys) j"
    by (simp add: occurs_at_append_inside)
  with i show ?thesis by (simp add: find_window_Some_iff occurs_at_append)
qed

section \<open>Substring search and splitting\<close>

text \<open>\<open>str::contains\<close> with a string pattern (a \<open>char\<close> pattern is the one-element string).\<close>

fun contains :: "'a list \<Rightarrow> 'a list \<Rightarrow> bool" where
  "contains pat [] \<longleftrightarrow> pat = []"
| "contains pat (x # xs) \<longleftrightarrow> take (length pat) (x # xs) = pat \<or> contains pat xs"

lemma contains_sublist: "contains pat xs \<longleftrightarrow> sublist pat xs"
proof (induction xs)
  case Nil
  then show ?case by simp
next
  case (Cons x xs)
  have "take (length pat) (x # xs) = pat \<longleftrightarrow> prefix pat (x # xs)"
    by (metis append_eq_conv_conj prefix_def take_is_prefix)
  with Cons.IH show ?case by (auto simp: sublist_Cons_right)
qed

lemma contains_single [std_simps]: "contains [c] xs \<longleftrightarrow> c \<in> set xs"
  by (induction xs) auto

lemma contains_trans: "contains a b \<Longrightarrow> contains b c \<Longrightarrow> contains a c"
  unfolding contains_sublist by (rule sublist_order.order.trans)

lemma contains_set: "contains pat xs \<Longrightarrow> set pat \<subseteq> set xs"
  by (simp add: contains_sublist set_mono_sublist)

lemma not_contains_if_missing: "c \<in> set pat \<Longrightarrow> c \<notin> set xs \<Longrightarrow> \<not> contains pat xs"
  using contains_set by fastforce

lemma contains_append_prefix [std_simps]: "contains pat (pat @ xs)"
  unfolding contains_sublist by simp

lemma contains_append_left: "contains pat xs \<Longrightarrow> contains pat (ys @ xs)"
  by (induction ys) simp_all

lemma contains_append_right: "contains pat xs \<Longrightarrow> contains pat (xs @ ys)"
  unfolding contains_sublist by (auto simp: sublist_def) blast

text \<open>\<open>str::split(c)\<close> collected into a vector: always at least one part.\<close>

fun split_on :: "'a \<Rightarrow> 'a list \<Rightarrow> 'a list list" where
  "split_on c [] = [[]]"
| "split_on c (x # xs) =
     (if x = c then [] # split_on c xs
      else (x # hd (split_on c xs)) # tl (split_on c xs))"

lemma split_on_not_Nil [simp]: "split_on c xs \<noteq> []"
  by (induction xs) auto

lemma length_split_on: "length (split_on c xs) = Suc (count_list xs c)"
  by (induction xs) (auto simp: Suc_diff_le)

lemma split_on_no_sep [std_simps]: "c \<notin> set xs \<Longrightarrow> split_on c xs = [xs]"
  by (induction xs) auto

lemma split_on_append [std_simps]:
  "c \<notin> set xs \<Longrightarrow> split_on c (xs @ c # ys) = xs # split_on c ys"
  by (induction xs) auto

lemma split_on_parts: "p \<in> set (split_on c xs) \<Longrightarrow> c \<notin> set p"
proof (induction xs arbitrary: p)
  case Nil
  then show ?case by simp
next
  case (Cons x xs)
  show ?case
  proof (cases "x = c")
    case True
    with Cons show ?thesis by auto
  next
    case False
    then have "p = x # hd (split_on c xs) \<or> p \<in> set (tl (split_on c xs))"
      using Cons.prems by simp
    then show ?thesis
      using Cons.IH False list.set_sel(2) [of "split_on c xs" p] by auto
  qed
qed

lemma split_on_subset: "p \<in> set (split_on c xs) \<Longrightarrow> set p \<subseteq> set xs"
proof (induction xs arbitrary: p)
  case Nil
  then show ?case by simp
next
  case (Cons x xs)
  let ?h = "hd (split_on c xs)"
  have h: "set ?h \<subseteq> set xs" by (rule Cons.IH) simp
  from Cons.prems consider "p = []" | "p = x # ?h" | "p \<in> set (split_on c xs)"
    by (cases "split_on c xs") (auto split: if_splits)
  then show ?case
  proof cases
    case 2
    with h show ?thesis by auto
  next
    case 3
    with Cons.IH show ?thesis by fastforce
  qed simp
qed

section \<open>Lists related element by element\<close>

lemma list_all2_butlast_take:
  assumes "list_all2 P (butlast xs) ys"
  shows "take (length ys) xs = butlast xs"
proof -
  have "length ys = length xs - 1" using list_all2_lengthD [OF assms] by simp
  then show ?thesis by (simp add: butlast_conv_take)
qed

lemma list_all2_butlast_snoc:
  "xs \<noteq> [] \<Longrightarrow> list_all2 P (butlast xs) ys \<Longrightarrow> P (last xs) y \<Longrightarrow> list_all2 P xs (ys @ [y])"
  using list_all2_appendI [of P "butlast xs" ys "[last xs]" "[y]"] by simp

end
