(* ===== verification/Rust_String.thy ===== *)
theory Rust_String
  imports Prelude
begin

text \<open>
  Strings as the standard library has them. A \<open>String\<close> is a sequence of Unicode scalar
  values (here the list of their code points), stored as UTF-8; \<open>as_bytes\<close> gives the bytes
  and \<open>from_utf8_lossy\<close> reads bytes back, one replacement character for every maximal
  ill-formed subsequence. Literals of the source are ASCII: \<open>str ''HMAC''\<close>.
\<close>

section \<open>Characters and literals\<close>

type_synonym rchar = nat
type_synonym rstring = "rchar list"

definition str :: "string \<Rightarrow> rstring" where
  "str s = map of_char s"

lemma str_Nil [simp]: "str [] = []"
  by (simp add: str_def)

lemma str_Cons: "str (c # s) = of_char c # str s"
  by (simp add: str_def)

lemmas str_eval [eval_simps] = str_Nil str_Cons

lemma str_inject [simp]: "str s = str t \<longleftrightarrow> s = t"
  by (simp add: str_def inj_map_eq_map inj_on_def)

lemma str_eq_Nil_iff [simp]: "str s = [] \<longleftrightarrow> s = []"
  by (simp add: str_def)

lemma str_append: "str (s @ t) = str s @ str t"
  by (simp add: str_def)

lemma contains_char [std_simps]: "contains (str [c]) s \<longleftrightarrow> of_char c \<in> set s"
  by (simp add: str_Cons contains_single)

definition is_scalar :: "rchar \<Rightarrow> bool" where
  "is_scalar c \<longleftrightarrow> c < 0xD800 \<or> (0xE000 \<le> c \<and> c < 0x110000)"

definition valid_string :: "rstring \<Rightarrow> bool" where
  "valid_string s \<longleftrightarrow> list_all is_scalar s"

lemma valid_string_Nil [simp]: "valid_string []"
  by (simp add: valid_string_def)

lemma valid_string_Cons [simp]: "valid_string (c # s) \<longleftrightarrow> is_scalar c \<and> valid_string s"
  by (simp add: valid_string_def)

lemma valid_string_append [simp]:
  "valid_string (s @ t) \<longleftrightarrow> valid_string s \<and> valid_string t"
  by (simp add: valid_string_def)

definition replacement_char :: rchar where
  "replacement_char = 0xFFFD"

lemma is_scalar_replacement [simp]: "is_scalar replacement_char"
  by (simp add: is_scalar_def replacement_char_def)

lemma is_scalar_ascii: "c < 128 \<Longrightarrow> is_scalar c"
  by (simp add: is_scalar_def)

lemma valid_string_ascii: "list_all (\<lambda>c. c < 128) s \<Longrightarrow> valid_string s"
  by (induction s) (auto simp: is_scalar_ascii)

section \<open>UTF-8\<close>

definition byte :: "nat \<Rightarrow> u8" where
  "byte n = word_of_nat n"

lemma unat_byte [simp]: "n < 256 \<Longrightarrow> unat (byte n) = n"
  by (simp add: byte_def unat_of_nat)

text \<open>The UTF-8 encoding of one character, one to four bytes.\<close>

definition encode_utf8 :: "rchar \<Rightarrow> u8 list" where
  "encode_utf8 c =
     (if c < 0x80 then [byte c]
      else if c < 0x800 then [byte (0xC0 + c div 64), byte (0x80 + c mod 64)]
      else if c < 0x10000 then
        [byte (0xE0 + c div 4096), byte (0x80 + c div 64 mod 64), byte (0x80 + c mod 64)]
      else
        [byte (0xF0 + c div 262144), byte (0x80 + c div 4096 mod 64),
         byte (0x80 + c div 64 mod 64), byte (0x80 + c mod 64)])"

definition as_bytes :: "rstring \<Rightarrow> u8 list" where
  "as_bytes s = concat (map encode_utf8 s)"

lemma as_bytes_Nil [simp]: "as_bytes [] = []"
  by (simp add: as_bytes_def)

lemma as_bytes_Cons: "as_bytes (c # s) = encode_utf8 c @ as_bytes s"
  by (simp add: as_bytes_def)

lemma as_bytes_append: "as_bytes (s @ t) = as_bytes s @ as_bytes t"
  by (simp add: as_bytes_def)

text \<open>\<open>String::len\<close> counts bytes, not characters.\<close>

definition byte_len :: "rstring \<Rightarrow> nat" where
  "byte_len s = length (as_bytes s)"

text \<open>
  One step of the lossy decoder: the character that starts at byte \<open>b\<close> and the input left
  after it. The ranges of the second byte exclude overlong forms, surrogates and values
  above the last scalar; an ill-formed sequence is consumed up to, not including, the byte
  that breaks it.
\<close>

definition in_range :: "nat \<Rightarrow> nat \<Rightarrow> u8 \<Rightarrow> bool" where
  "in_range lo hi b \<longleftrightarrow> lo \<le> unat b \<and> unat b \<le> hi"

definition is_cont :: "u8 \<Rightarrow> bool" where
  "is_cont b \<longleftrightarrow> in_range 0x80 0xBF b"

definition low6 :: "u8 \<Rightarrow> nat" where
  "low6 b = unat b mod 64"

fun next_cont :: "nat \<Rightarrow> nat \<Rightarrow> u8 list \<Rightarrow> rchar \<times> u8 list" where
  "next_cont 0 acc bs = (acc, bs)"
| "next_cont (Suc n) acc [] = (replacement_char, [])"
| "next_cont (Suc n) acc (b # bs) =
     (if is_cont b then next_cont n (acc * 64 + low6 b) bs
      else (replacement_char, b # bs))"

definition second_ok :: "u8 \<Rightarrow> u8 \<Rightarrow> bool" where
  "second_ok b c \<longleftrightarrow>
     (if unat b = 0xE0 then in_range 0xA0 0xBF c
      else if unat b = 0xED then in_range 0x80 0x9F c
      else if unat b = 0xF0 then in_range 0x90 0xBF c
      else if unat b = 0xF4 then in_range 0x80 0x8F c
      else is_cont c)"

definition next_char :: "u8 \<Rightarrow> u8 list \<Rightarrow> rchar \<times> u8 list" where
  "next_char b bs =
     (if unat b < 0x80 then (unat b, bs)
      else if in_range 0xC2 0xDF b then next_cont 1 (unat b - 0xC0) bs
      else if in_range 0xE0 0xEF b then
        (case bs of
          [] \<Rightarrow> (replacement_char, [])
        | c # cs \<Rightarrow>
            if second_ok b c then next_cont 1 ((unat b - 0xE0) * 64 + low6 c) cs
            else (replacement_char, bs))
      else if in_range 0xF0 0xF4 b then
        (case bs of
          [] \<Rightarrow> (replacement_char, [])
        | c # cs \<Rightarrow>
            if second_ok b c then next_cont 2 ((unat b - 0xF0) * 64 + low6 c) cs
            else (replacement_char, bs))
      else (replacement_char, bs))"

lemma next_cont_length: "length (snd (next_cont n acc bs)) \<le> length bs"
  by (induction n acc bs rule: next_cont.induct) auto

lemma next_char_length: "length (snd (next_char b bs)) \<le> length bs"
  using next_cont_length [of 1 _ bs]
  by (auto simp: next_char_def split: list.split intro: le_SucI next_cont_length)

function from_utf8_lossy :: "u8 list \<Rightarrow> rstring" where
  "from_utf8_lossy [] = []"
| "from_utf8_lossy (b # bs) = fst (next_char b bs) # from_utf8_lossy (snd (next_char b bs))"
  by pat_completeness auto
termination
  by (relation "measure length") (auto simp: le_imp_less_Suc next_char_length)

text \<open>Decoding the bytes of a string gives the string back.\<close>

lemma in_range_byte: "n < 256 \<Longrightarrow> in_range lo hi (byte n) \<longleftrightarrow> lo \<le> n \<and> n \<le> hi"
  by (simp add: in_range_def)

lemma is_cont_byte: "is_cont (byte (0x80 + n mod 64))"
proof -
  have "n mod 64 < 64" by simp
  then show ?thesis unfolding is_cont_def by (subst in_range_byte) linarith+
qed

lemma low6_byte: "low6 (byte (0x80 + n mod 64)) = n mod 64"
proof -
  have "n mod 64 < 64" by simp
  then have "unat (byte (128 + n mod 64)) = 128 + n mod 64" by (intro unat_byte) linarith
  then show ?thesis by (simp add: low6_def mod_add_left_eq [symmetric])
qed

lemma next_cont_byte [simp]:
  "next_cont (Suc n) acc (byte (0x80 + m mod 64) # bs) = next_cont n (acc * 64 + m mod 64) bs"
  by (simp add: is_cont_byte low6_byte)

lemma next_char_one: "c < 0x80 \<Longrightarrow> next_char (byte c) rest = (c, rest)"
  by (simp add: next_char_def)

lemma next_char_two:
  assumes "0x80 \<le> c" "c < 0x800"
  shows "next_char (byte (0xC0 + c div 64)) (byte (0x80 + c mod 64) # rest) = (c, rest)"
proof -
  have "2 \<le> c div 64" "c div 64 < 32" using assms by linarith+
  then have "unat (byte (0xC0 + c div 64)) = 0xC0 + c div 64" by (intro unat_byte) linarith
  with \<open>2 \<le> c div 64\<close> \<open>c div 64 < 32\<close> show ?thesis
    using next_cont_byte [of 0 "c div 64" c rest]
    by (simp add: next_char_def in_range_def)
qed

lemma next_char_three:
  assumes "0x800 \<le> c" "c < 0x10000" "is_scalar c"
  shows "next_char (byte (0xE0 + c div 4096))
           (byte (0x80 + c div 64 mod 64) # byte (0x80 + c mod 64) # rest) = (c, rest)"
proof -
  let ?b = "byte (0xE0 + c div 4096)" and ?m = "c div 64 mod 64"
  have lead: "c div 4096 < 16" using assms by linarith
  then have b: "unat ?b = 0xE0 + c div 4096" by (intro unat_byte) linarith
  have parts: "c div 64 = c div 4096 * 64 + ?m" using div_mult2_eq [of c 64 64] by simp
  have m: "?m < 64" by simp
  then have second: "unat (byte (0x80 + ?m)) = 0x80 + ?m" by (intro unat_byte) linarith
  have "second_ok ?b (byte (0x80 + ?m))"
    using assms lead parts m
    by (auto simp: second_ok_def b in_range_def second is_cont_def is_scalar_def)
  moreover have "(c div 4096 * 64 + ?m) * 64 + c mod 64 = c"
    using parts by (simp flip: parts)
  ultimately show ?thesis
    using lead next_cont_byte [of 0 "c div 4096 * 64 + ?m" c rest]
    by (simp add: next_char_def in_range_def b low6_byte)
qed

lemma next_char_four:
  assumes "0x10000 \<le> c" "c < 0x110000"
  shows "next_char (byte (0xF0 + c div 262144))
           (byte (0x80 + c div 4096 mod 64) # byte (0x80 + c div 64 mod 64)
            # byte (0x80 + c mod 64) # rest) = (c, rest)"
proof -
  let ?b = "byte (0xF0 + c div 262144)" and ?m = "c div 4096 mod 64" and ?k = "c div 64 mod 64"
  have lead: "c div 262144 < 5" using assms by linarith
  then have b: "unat ?b = 0xF0 + c div 262144" by (intro unat_byte) linarith
  have parts: "c div 4096 = c div 262144 * 64 + ?m" using div_mult2_eq [of c 4096 64] by simp
  have parts': "c div 64 = c div 4096 * 64 + ?k" using div_mult2_eq [of c 64 64] by simp
  have m: "?m < 64" by simp
  then have second: "unat (byte (0x80 + ?m)) = 0x80 + ?m" by (intro unat_byte) linarith
  have "second_ok ?b (byte (0x80 + ?m))"
    using assms lead parts m
    by (auto simp: second_ok_def b in_range_def second is_cont_def)
  moreover have "((c div 262144 * 64 + ?m) * 64 + ?k) * 64 + c mod 64 = c"
    by (simp flip: parts parts')
  ultimately show ?thesis
    using lead next_cont_byte [of 1 "c div 262144 * 64 + ?m" "c div 64"]
      next_cont_byte [of 0 "(c div 262144 * 64 + ?m) * 64 + ?k" c rest]
    by (simp add: next_char_def in_range_def b low6_byte numeral_2_eq_2)
qed

lemma from_utf8_lossy_encode:
  assumes "is_scalar c"
  shows "from_utf8_lossy (encode_utf8 c @ rest) = c # from_utf8_lossy rest"
proof -
  have "c < 0x80 \<or> 0x80 \<le> c \<and> c < 0x800 \<or> 0x800 \<le> c \<and> c < 0x10000
      \<or> 0x10000 \<le> c \<and> c < 0x110000"
    using assms by (auto simp: is_scalar_def)
  then show ?thesis
    using assms
    by (auto simp: encode_utf8_def next_char_one next_char_two next_char_three next_char_four)
qed

lemma from_utf8_lossy_as_bytes_append:
  "valid_string s \<Longrightarrow> from_utf8_lossy (as_bytes s @ bs) = s @ from_utf8_lossy bs"
  by (induction s) (auto simp: as_bytes_Cons from_utf8_lossy_encode)

lemma from_utf8_lossy_as_bytes [std_simps]:
  "valid_string s \<Longrightarrow> from_utf8_lossy (as_bytes s) = s"
  using from_utf8_lossy_as_bytes_append [of s "[]"] by simp

text \<open>Whatever the bytes, the decoder produces a well-formed string.\<close>

lemma next_cont_bounds:
  assumes "next_cont n acc bs = (v, rest)"
  shows "v = replacement_char \<or> (acc * 64 ^ n \<le> v \<and> v < (acc + 1) * 64 ^ n)"
  using assms
proof (induction n acc bs arbitrary: v rest rule: next_cont.induct)
  case (3 n acc b bs)
  show ?case
  proof (cases "is_cont b")
    case True
    with "3.prems" have "next_cont n (acc * 64 + low6 b) bs = (v, rest)" by simp
    then have "v = replacement_char
        \<or> ((acc * 64 + low6 b) * 64 ^ n \<le> v \<and> v < (acc * 64 + low6 b + 1) * 64 ^ n)"
      using "3.IH" True by blast
    moreover have "acc * 64 ^ Suc n \<le> (acc * 64 + low6 b) * 64 ^ n"
      by (simp add: algebra_simps)
    moreover have "(acc * 64 + low6 b + 1) * 64 ^ n \<le> (acc + 1) * 64 ^ Suc n"
    proof -
      have "acc * 64 + low6 b + 1 \<le> (acc + 1) * 64"
        using mod_less_divisor [of 64 "unat b"] by (simp add: low6_def)
      then have "(acc * 64 + low6 b + 1) * 64 ^ n \<le> (acc + 1) * 64 * 64 ^ n"
        by (rule mult_right_mono) simp
      then show ?thesis by (simp only: mult.assoc power_Suc)
    qed
    ultimately show ?thesis by (meson order_trans less_le_trans)
  qed (use "3.prems" in auto)
qed auto

lemma low6_in_range:
  "in_range lo hi c \<Longrightarrow> 0x80 \<le> lo \<Longrightarrow> hi < 0xC0 \<Longrightarrow> lo - 0x80 \<le> low6 c \<and> low6 c \<le> hi - 0x80"
proof -
  assume r: "in_range lo hi c" "0x80 \<le> lo" "hi < 0xC0"
  then have "unat c mod 64 = unat c - 0x80"
    using mod_if [of "unat c - 64" 64] le_mod_geq [of 64 "unat c"]
    by (auto simp: in_range_def le_mod_geq)
  with r show ?thesis by (auto simp: low6_def in_range_def)
qed

lemma next_char_scalar: "is_scalar (fst (next_char b bs))"
proof -
  have two: "is_scalar (fst (next_cont 1 (unat b - 0xC0) bs))" if "in_range 0xC2 0xDF b"
    using next_cont_bounds [of 1 "unat b - 0xC0" bs] that
    by (cases "next_cont 1 (unat b - 0xC0) bs") (auto simp: in_range_def is_scalar_def replacement_char_def)
  have three: "is_scalar (fst (next_cont 1 ((unat b - 0xE0) * 64 + low6 c) cs))"
    if "in_range 0xE0 0xEF b" "second_ok b c" for c cs
  proof -
    let ?a = "(unat b - 0xE0) * 64 + low6 c"
    have c: "low6 c < 64" by (simp add: low6_def)
    have "?a < 864 \<or> 896 \<le> ?a \<and> ?a < 1024"
    proof (cases "unat b = 0xED")
      case True
      with that(2) have "in_range 0x80 0x9F c" by (simp add: second_ok_def)
      from low6_in_range [OF this] True show ?thesis by simp
    next
      case False
      with that(1) c show ?thesis by (auto simp: in_range_def)
    qed
    then show ?thesis
      using next_cont_bounds [of 1 ?a cs]
      by (cases "next_cont 1 ?a cs") (auto simp: is_scalar_def replacement_char_def)
  qed
  have four: "is_scalar (fst (next_cont 2 ((unat b - 0xF0) * 64 + low6 c) cs))"
    if "in_range 0xF0 0xF4 b" "second_ok b c" for c cs
  proof -
    let ?a = "(unat b - 0xF0) * 64 + low6 c"
    have c: "low6 c < 64" by (simp add: low6_def)
    have "16 \<le> ?a \<and> ?a < 272"
    proof -
      have "0xF0 \<le> unat b" "unat b \<le> 0xF4" using that(1) by (simp_all add: in_range_def)
      then consider "unat b = 0xF0" | "unat b = 0xF4" | "0xF1 \<le> unat b" "unat b \<le> 0xF3"
        by linarith
      then show ?thesis
      proof cases
        case 1
        with that(2) have "in_range 0x90 0xBF c" by (simp add: second_ok_def)
        from low6_in_range [OF this] 1 show ?thesis by simp
      next
        case 2
        with that(2) have "in_range 0x80 0x8F c" by (simp add: second_ok_def)
        from low6_in_range [OF this] 2 show ?thesis by simp
      next
        case 3
        with c show ?thesis by linarith
      qed
    qed
    then show ?thesis
      using next_cont_bounds [of 2 ?a cs]
      by (cases "next_cont 2 ?a cs") (auto simp: is_scalar_def replacement_char_def)
  qed
  show ?thesis
    using two three four
    by (auto simp: next_char_def is_scalar_ascii split: list.split)
qed

lemma valid_from_utf8_lossy: "valid_string (from_utf8_lossy bs)"
  by (induction bs rule: from_utf8_lossy.induct) (auto simp: next_char_scalar)

text \<open>ASCII bytes stand for themselves only: every byte of a longer encoding is at least 0x80.\<close>

lemma unat_byte_high: "0x80 \<le> m \<Longrightarrow> m + n < 256 \<Longrightarrow> \<not> unat (byte (m + n)) < 0x80"
  by simp

lemma unat_byte_cont: "\<not> unat (byte (0x80 + n mod 64)) < 0x80"
proof (rule unat_byte_high)
  show "0x80 + n mod 64 < 256" using mod_less_divisor [of 64 n] by linarith
qed simp

lemma encode_utf8_ascii:
  assumes "is_scalar c" and "b \<in> set (encode_utf8 c)" and "unat b < 0x80"
  shows "c = unat b"
proof -
  from assms(1) have "c < 0x110000" by (auto simp: is_scalar_def)
  then have "c < 0x800 \<Longrightarrow> 0xC0 + c div 64 < 256" "c < 0x10000 \<Longrightarrow> 0xE0 + c div 4096 < 256"
    "0xF0 + c div 262144 < 256"
    by linarith+
  then have "c < 0x800 \<Longrightarrow> \<not> unat (byte (0xC0 + c div 64)) < 0x80"
    "c < 0x10000 \<Longrightarrow> \<not> unat (byte (0xE0 + c div 4096)) < 0x80"
    "\<not> unat (byte (0xF0 + c div 262144)) < 0x80"
    by (simp_all add: unat_byte_high)
  with assms(2,3) unat_byte_cont show ?thesis
    by (auto simp: encode_utf8_def simp del: unat_byte split: if_splits) (simp_all)
qed

lemma as_bytes_ascii:
  "valid_string s \<Longrightarrow> unat b < 0x80 \<Longrightarrow> b \<in> set (as_bytes s) \<Longrightarrow> unat b \<in> set s"
  by (induction s) (auto simp: as_bytes_Cons dest: encode_utf8_ascii)

lemma length_encode_utf8: "1 \<le> length (encode_utf8 c) \<and> length (encode_utf8 c) \<le> 4"
  by (simp add: encode_utf8_def)

lemma length_encode_utf8_one: "length (encode_utf8 c) = Suc 0 \<longleftrightarrow> c < 0x80"
  by (simp add: encode_utf8_def)

lemma byte_len_one_iff: "byte_len s = 1 \<longleftrightarrow> (\<exists>c. c < 0x80 \<and> s = [c])"
proof (cases s)
  case Nil
  then show ?thesis by (simp add: byte_len_def)
next
  case (Cons c t)
  show ?thesis
  proof (cases t)
    case Nil
    with Cons show ?thesis by (simp add: byte_len_def as_bytes_Cons length_encode_utf8_one)
  next
    case (Cons d u)
    with \<open>s = c # t\<close> show ?thesis
      using length_encode_utf8 [of c] length_encode_utf8 [of d]
      by (simp add: byte_len_def as_bytes_Cons)
  qed
qed

lemma as_bytes_str: "list_all (\<lambda>c. c < 128) s \<Longrightarrow> as_bytes s = map byte s"
  by (induction s) (auto simp: as_bytes_Cons encode_utf8_def)

section \<open>Editing operations\<close>

text \<open>\<open>char::is_whitespace\<close>: the code points with the Unicode property White_Space.\<close>

definition is_whitespace :: "rchar \<Rightarrow> bool" where
  "is_whitespace c \<longleftrightarrow>
     (9 \<le> c \<and> c \<le> 13) \<or> c = 0x20 \<or> c = 0x85 \<or> c = 0xA0 \<or> c = 0x1680
     \<or> (0x2000 \<le> c \<and> c \<le> 0x200A) \<or> c = 0x2028 \<or> c = 0x2029 \<or> c = 0x202F
     \<or> c = 0x205F \<or> c = 0x3000"

definition trim :: "rstring \<Rightarrow> rstring" where
  "trim s = rev (dropWhile is_whitespace (rev (dropWhile is_whitespace s)))"

lemma trim_ends:
  "trim s \<noteq> [] \<Longrightarrow> \<not> is_whitespace (hd (trim s)) \<and> \<not> is_whitespace (last (trim s))"
proof -
  assume ne: "trim s \<noteq> []"
  define t where "t = dropWhile is_whitespace s"
  define u where "u = dropWhile is_whitespace (rev t)"
  have trim: "trim s = rev u" by (simp add: trim_def t_def u_def)
  with ne have u: "u \<noteq> []" by simp
  obtain v where v: "rev t = v @ u" unfolding u_def by (metis takeWhile_dropWhile_id)
  then have t: "t = rev u @ rev v" by (metis rev_append rev_rev_ident)
  with u have "t \<noteq> []" by simp
  then have "\<not> is_whitespace (hd t)" unfolding t_def by (rule hd_dropWhile)
  moreover have "hd t = hd (rev u)" using u t by simp
  moreover have "\<not> is_whitespace (hd u)" using u unfolding u_def by (rule hd_dropWhile)
  ultimately show ?thesis using u trim by (simp add: last_rev)
qed

lemma trim_id:
  "s = [] \<or> (\<not> is_whitespace (hd s) \<and> \<not> is_whitespace (last s)) \<Longrightarrow> trim s = s"
proof -
  assume "s = [] \<or> (\<not> is_whitespace (hd s) \<and> \<not> is_whitespace (last s))"
  then have "dropWhile is_whitespace s = s" "dropWhile is_whitespace (rev s) = rev s"
    by (auto simp: dropWhile_eq_self_iff hd_rev)
  then show ?thesis by (simp add: trim_def)
qed

lemma trim_Cons_space [std_simps]: "is_whitespace c \<Longrightarrow> trim (c # s) = trim s"
  by (simp add: trim_def)

lemma trim_set: "set (trim s) \<subseteq> set s"
  by (auto simp: trim_def dest!: set_dropWhileD)

lemma valid_trim: "valid_string s \<Longrightarrow> valid_string (trim s)"
  using trim_set [of s] by (auto simp: valid_string_def list_all_iff)

text \<open>\<open>String::remove(0)\<close>: what is left after the first character; panics when there is none.\<close>

fun remove_first :: "rstring \<Rightarrow> rstring may_panic" where
  "remove_first [] = Inl Cannot_Remove_Char"
| "remove_first (c # s) = Inr s"

text \<open>\<open>Display\<close> of an unsigned integer: decimal, without leading zeros.\<close>

fun show_nat :: "nat \<Rightarrow> rstring" where
  "show_nat n = (if n < 10 then [48 + n] else show_nat (n div 10) @ [48 + n mod 10])"

declare show_nat.simps [simp del]

lemma show_nat_small: "n < 10 \<Longrightarrow> show_nat n = [48 + n]"
  by (simp add: show_nat.simps)

lemma show_nat_step: "\<not> n < 10 \<Longrightarrow> show_nat n = show_nat (n div 10) @ [48 + n mod 10]"
  by (subst show_nat.simps) simp

lemma show_nat_digits: "list_all (\<lambda>c. 48 \<le> c \<and> c \<le> 57) (show_nat n)"
proof (induction n rule: show_nat.induct)
  case (1 n)
  have "n mod 10 < 10" by simp
  with 1 show ?case
    by (cases "n < 10") (auto simp: show_nat_small show_nat_step simp del: mod_less_divisor)
qed

lemma show_nat_not_Nil [simp]: "show_nat n \<noteq> []"
  by (subst show_nat.simps) simp

lemma valid_show_nat [simp]: "valid_string (show_nat n)"
proof (rule valid_string_ascii)
  show "list_all (\<lambda>c. c < 128) (show_nat n)"
    using show_nat_digits by (rule list.pred_mono_strong) simp
qed

text \<open>Reading the digits back: the value of a decimal numeral.\<close>

definition digits_value :: "rstring \<Rightarrow> nat" where
  "digits_value s = foldl (\<lambda>v c. v * 10 + (c - 48)) 0 s"

lemma digits_value_show_nat [std_simps]: "digits_value (show_nat n) = n"
proof (induction n rule: show_nat.induct)
  case (1 n)
  then show ?case
    by (cases "n < 10") (auto simp: show_nat_small show_nat_step digits_value_def)
qed

lemma show_nat_inject [simp]: "show_nat m = show_nat n \<longleftrightarrow> m = n"
  by (metis digits_value_show_nat)

end
