(* ===== verification/Ftl_Codec.thy ===== *)
theory Ftl_Codec
  imports Rust_String "HOL-Library.AList_Mapping"
begin

text \<open>
  The FTL codec (\<open>ftl_codec.rs\<close>): the commands, the codec state, the decoder that cuts one
  command off the read buffer, the encoder and the error type. \<open>drain\<close> is what a reader
  of the codec does: call \<open>decode\<close> until it asks for more input.
\<close>

section \<open>Commands, codec state and errors\<close>

type_synonym hash_map = "(rstring, rstring) mapping"

datatype FtlCommand =
    HMAC
  | Connect hash_map
  | Ping
  | Dot
  | Attribute hash_map
  | Disconnect

datatype FtlCodec = FtlCodec (command_buffer: "u8 list")

text \<open>The derived \<open>Ord\<close> compares the one field, a vector of bytes, lexicographically.\<close>

instantiation FtlCodec :: linorder
begin

definition less_eq_FtlCodec :: "FtlCodec \<Rightarrow> FtlCodec \<Rightarrow> bool" where
  "less_eq_FtlCodec a b \<longleftrightarrow> command_buffer a \<le> command_buffer b"

definition less_FtlCodec :: "FtlCodec \<Rightarrow> FtlCodec \<Rightarrow> bool" where
  "less_FtlCodec a b \<longleftrightarrow> command_buffer a < command_buffer b"

instance
  by standard (auto simp: less_eq_FtlCodec_def less_FtlCodec_def FtlCodec.expand)

end

definition new_codec :: FtlCodec where
  "new_codec = FtlCodec []"

definition reset :: "FtlCodec \<Rightarrow> FtlCodec" where
  "reset self = FtlCodec []"

text \<open>An \<open>io::Error\<close> is represented by the text it displays.\<close>

type_synonym io_error = rstring

datatype FtlError = Unsupported rstring | Io io_error

definition from_io_error :: "io_error \<Rightarrow> FtlError" where
  "from_io_error e = Io e"

fun display_error :: "FtlError \<Rightarrow> rstring" where
  "display_error (Io e) = e"
| "display_error (Unsupported s) =
     str ''Unsupported FTL Command '' @ s @ str ''! Bug GRVY to support this''"

section \<open>The decoder\<close>

definition delimiter :: "u8 list" where
  "delimiter = [0x0D, 0x0A, 0x0D, 0x0A]"

definition connect_data :: "rstring \<Rightarrow> hash_map may_panic" where
  "connect_data command =
     (let commands = split_on 0x20 command in
      and_then (index_at commands 2) (\<lambda>field.
      and_then (remove_first field) (\<lambda>key.
      and_then (index_at commands 1) (\<lambda>channel.
        Inr (Mapping.update (str ''stream_key'') key
              (Mapping.update (str ''channel_id'') channel Mapping.empty))))))"

definition attribute_data :: "rstring \<Rightarrow> hash_map may_panic" where
  "attribute_data command =
     (let commands = split_on 0x3A command in
      and_then (index_at commands 0) (\<lambda>key.
      and_then (index_at commands 1) (\<lambda>value.
        Inr (Mapping.update (str ''value'') (trim value)
              (Mapping.update (str ''key'') key Mapping.empty)))))"

text \<open>The chain of tests on one command, in the order of the code.\<close>

definition decode_command ::
  "FtlCodec \<Rightarrow> rstring \<Rightarrow> ((FtlError + FtlCommand option) \<times> FtlCodec) may_panic" where
  "decode_command self command =
     (if contains (str ''HMAC'') command then Inr (Inr (Some HMAC), reset self)
      else if contains (str ''DISCONNECT'') command then Inr (Inr (Some Disconnect), reset self)
      else if contains (str ''CONNECT'') command then
        and_then (connect_data command) (\<lambda>data. Inr (Inr (Some (Connect data)), reset self))
      else if contains (str '':'') command then
        and_then (attribute_data command) (\<lambda>data. Inr (Inr (Some (Attribute data)), reset self))
      else if contains (str ''.'') command \<and> byte_len command = 1 then
        Inr (Inr (Some Dot), reset self)
      else if contains (str ''PING'') command then Inr (Inr (Some Ping), reset self)
      else Inr (Inl (Unsupported command), reset self))"

text \<open>\<open>decode\<close> returns its result, the codec and the bytes left in the buffer.\<close>

definition decode ::
  "FtlCodec \<Rightarrow> u8 list
    \<Rightarrow> ((FtlError + FtlCommand option) \<times> FtlCodec \<times> u8 list) may_panic" where
  "decode self buf =
     (case position (\<lambda>window. window = delimiter) (windows 4 buf) of
        Some index \<Rightarrow>
          and_then (decode_command self (from_utf8_lossy (take index buf)))
            (\<lambda>(result, self'). Inr (result, self', drop (index + 4) buf))
      | None \<Rightarrow> Inr (Inr None, self, buf))"

text \<open>\<open>encode\<close> appends the bytes of the line; the reserve has no observable effect.\<close>

definition encode :: "FtlCodec \<Rightarrow> rstring \<Rightarrow> u8 list \<Rightarrow> (FtlError + unit) \<times> FtlCodec \<times> u8 list" where
  "encode self line buf = (Inr (), self, buf @ as_bytes line)"

lemma length_delimiter [simp]: "length delimiter = 4"
  by (simp add: delimiter_def)

lemma find_window_Nil [simp]: "find_window delimiter [] = None"
  by code_simp

lemma decode_find:
  "decode self buf =
     (case find_window delimiter buf of
        Some index \<Rightarrow>
          and_then (decode_command self (from_utf8_lossy (take index buf)))
            (\<lambda>(result, self'). Inr (result, self', drop (index + 4) buf))
      | None \<Rightarrow> Inr (Inr None, self, buf))"
  by (simp add: decode_def find_window_def)

text \<open>What the buffer is when the decoder finds a command in it.\<close>

lemma find_delimiter_split:
  assumes "find_window delimiter buf = Some i"
  shows "buf = take i buf @ delimiter @ drop (i + 4) buf" and "i + 4 \<le> length buf"
proof -
  from assms have "occurs_at delimiter buf i" by (simp add: find_window_Some_iff)
  then have i: "i + 4 \<le> length buf" "take 4 (drop i buf) = delimiter"
    by (simp_all add: occurs_at_def)
  then show "i + 4 \<le> length buf" by simp
  have "drop i buf = delimiter @ drop 4 (drop i buf)" using i(2) by (metis append_take_drop_id)
  then show "buf = take i buf @ delimiter @ drop (i + 4) buf"
    by (metis append_take_drop_id drop_drop add.commute)
qed

lemma decode_command_Some:
  "decode_command self command = Inr (result, self') \<Longrightarrow> result \<noteq> Inr None \<and> self' = reset self"
  by (auto simp: decode_command_def and_then_Inr_iff split: if_splits)

lemma decode_None_iff:
  "decode self buf = Inr (Inr None, self', buf') \<longleftrightarrow>
     find_window delimiter buf = None \<and> self' = self \<and> buf' = buf"
  by (auto simp: decode_find and_then_Inr_iff split: option.splits dest: decode_command_Some)

lemma decode_consumes:
  assumes "decode self buf = Inr (result, self', buf')" and "result \<noteq> Inr None"
  obtains i where "find_window delimiter buf = Some i" and "buf' = drop (i + 4) buf"
    and "decode_command self (from_utf8_lossy (take i buf)) = Inr (result, self')"
  using assms by (auto simp: decode_find and_then_Inr_iff split: option.splits)

lemma decode_shorter:
  assumes "decode self buf = Inr (result, self', buf')" and "result \<noteq> Inr None"
  shows "length buf' < length buf"
proof -
  from assms obtain i where "find_window delimiter buf = Some i" "buf' = drop (i + 4) buf"
    by (rule decode_consumes)
  with find_delimiter_split(2) [of buf i] show ?thesis by simp
qed

section \<open>Reading until more input is needed\<close>

datatype drain_end =
    Pending FtlCodec "u8 list"
  | Failed FtlError
  | Crashed panic

function drain :: "FtlCodec \<Rightarrow> u8 list \<Rightarrow> FtlCommand list \<times> drain_end" where
  "drain self buf =
     (case decode self buf of
        Inl p \<Rightarrow> ([], Crashed p)
      | Inr (Inl e, self', buf') \<Rightarrow> ([], Failed e)
      | Inr (Inr None, self', buf') \<Rightarrow> ([], Pending self' buf')
      | Inr (Inr (Some command), self', buf') \<Rightarrow>
          (let (commands, stop) = drain self' buf' in (command # commands, stop)))"
  by pat_completeness auto
termination
  by (relation "measure (\<lambda>(self, buf). length buf)") (auto dest: decode_shorter)

declare drain.simps [simp del]

lemma drain_Crashed: "decode self buf = Inl p \<Longrightarrow> drain self buf = ([], Crashed p)"
  by (subst drain.simps) simp

lemma drain_Failed:
  "decode self buf = Inr (Inl e, self', buf') \<Longrightarrow> drain self buf = ([], Failed e)"
  by (subst drain.simps) simp

lemma drain_Pending:
  "find_window delimiter buf = None \<Longrightarrow> drain self buf = ([], Pending self buf)"
  by (subst drain.simps) (simp add: decode_find)

lemma drain_Some:
  "decode self buf = Inr (Inr (Some command), self', buf') \<Longrightarrow>
     drain self buf = apfst ((#) command) (drain self' buf')"
  by (subst drain.simps) (simp add: apfst_def map_prod_def split_def Let_def)

lemmas drain_cases = drain_Crashed drain_Failed drain_Pending drain_Some

lemma decode_cases [case_names crash error wait command]:
  obtains p where "decode self buf = Inl p"
  | e self' buf' where "decode self buf = Inr (Inl e, self', buf')"
  | "decode self buf = Inr (Inr None, self, buf)" "find_window delimiter buf = None"
  | command self' buf' where "decode self buf = Inr (Inr (Some command), self', buf')"
proof (cases "decode self buf")
  case (Inr r)
  obtain result self' buf' where r: "r = (result, self', buf')" by (cases r)
  show ?thesis
  proof (cases result)
    case (Inr opt)
    with \<open>decode self buf = Inr r\<close> r that(3,4) show ?thesis
      by (cases opt) (auto simp: decode_None_iff)
  qed (use Inr r that(2) in auto)
qed (use that(1) in auto)

text \<open>More input behind a complete command changes neither the command nor a panic.\<close>

lemma decode_append_Inl: "decode self xs = Inl p \<Longrightarrow> decode self (xs @ ys) = Inl p"
  by (auto simp: decode_find find_window_append and_then_Inl_iff
      dest!: find_delimiter_split(2) split: option.splits)

lemma decode_append_Inr:
  assumes "decode self xs = Inr (result, self', buf')" and "result \<noteq> Inr None"
  shows "decode self (xs @ ys) = Inr (result, self', buf' @ ys)"
proof -
  from assms obtain i where i: "find_window delimiter xs = Some i" "buf' = drop (i + 4) xs"
    "decode_command self (from_utf8_lossy (take i xs)) = Inr (result, self')"
    by (rule decode_consumes)
  moreover have "i + 4 \<le> length xs" using i(1) by (rule find_delimiter_split(2))
  ultimately show ?thesis by (simp add: decode_find find_window_append)
qed

lemma drain_append:
  "drain self (xs @ ys) =
     (case drain self xs of
        (commands, Pending self' rest) \<Rightarrow> apfst ((@) commands) (drain self' (rest @ ys))
      | (commands, stop) \<Rightarrow> (commands, stop))"
proof (induction self xs rule: drain.induct)
  case (1 self xs)
  show ?case
  proof (cases self xs rule: decode_cases)
    case (command c self' buf')
    with 1 have "drain self' (buf' @ ys) =
       (case drain self' buf' of
          (commands, Pending self' rest) \<Rightarrow> apfst ((@) commands) (drain self' (rest @ ys))
        | (commands, stop) \<Rightarrow> (commands, stop))"
      by blast
    with command show ?thesis
      by (simp add: drain_Some decode_append_Inr apfst_def map_prod_def split_def
          split: drain_end.splits)
  next
    case wait
    then show ?thesis by (cases "drain self (xs @ ys)") (simp add: drain_Pending)
  qed (simp_all add: drain_cases decode_append_Inl decode_append_Inr)
qed

text \<open>
  What the connection does with a byte stream: the decoder is called until it asks for more,
  then the next chunk is appended to what it left in the buffer.
\<close>

fun feed :: "FtlCodec \<Rightarrow> u8 list \<Rightarrow> u8 list list \<Rightarrow> FtlCommand list \<times> drain_end" where
  "feed self buf [] = ([], Pending self buf)"
| "feed self buf (chunk # chunks) =
     (case drain self (buf @ chunk) of
        (commands, Pending self' rest) \<Rightarrow> apfst ((@) commands) (feed self' rest chunks)
      | (commands, stop) \<Rightarrow> (commands, stop))"

lemma drain_Pending_rest:
  "drain self buf = (commands, Pending self' rest) \<Longrightarrow> drain self' rest = ([], Pending self' rest)"
proof (induction self buf arbitrary: commands rule: drain.induct)
  case (1 self buf)
  show ?case
  proof (cases self buf rule: decode_cases)
    case (command c self2 buf2)
    with "1.prems" obtain cs where "drain self2 buf2 = (cs, Pending self' rest)"
      by (cases "drain self2 buf2") (auto simp: drain_Some)
    from "1.IH" [OF command refl refl refl refl this] show ?thesis .
  qed (use "1.prems" in \<open>simp_all add: drain_cases\<close>)
qed

lemma feed_drain:
  "drain self buf = ([], Pending self buf) \<Longrightarrow> feed self buf chunks = drain self (buf @ concat chunks)"
proof (induction chunks arbitrary: self buf)
  case (Cons chunk chunks)
  have "drain self ((buf @ chunk) @ concat chunks) =
     (case drain self (buf @ chunk) of
        (commands, Pending self' rest) \<Rightarrow> apfst ((@) commands) (drain self' (rest @ concat chunks))
      | (commands, stop) \<Rightarrow> (commands, stop))"
    by (rule drain_append)
  moreover have "feed self' rest chunks = drain self' (rest @ concat chunks)"
    if "drain self (buf @ chunk) = (commands, Pending self' rest)" for commands self' rest
    using that by (intro Cons.IH drain_Pending_rest)
  ultimately show ?case
    by (cases "drain self (buf @ chunk)") (auto split: drain_end.split)
qed simp

text \<open>
  (C7) Reading is independent of how the network cuts the byte stream into chunks: feeding the
  decoder chunk by chunk yields the commands, the error or panic, and the bytes left over that
  decoding the whole stream at once yields.
\<close>

theorem feed_is_drain: "feed self [] chunks = drain self (concat chunks)"
  by (simp add: feed_drain drain_Pending)

section \<open>Framing\<close>

text \<open>One command as the client writes it: its text and the blank line that ends it.\<close>

definition frame_bytes :: "rstring \<Rightarrow> u8 list" where
  "frame_bytes s = as_bytes s @ delimiter"

text \<open>The texts that need no escaping: well-formed and without a carriage return.\<close>

definition plain_line :: "rstring \<Rightarrow> bool" where
  "plain_line s \<longleftrightarrow> valid_string s \<and> 0x0D \<notin> set s"

lemma plain_line_append [simp]: "plain_line (s @ t) \<longleftrightarrow> plain_line s \<and> plain_line t"
  by (auto simp: plain_line_def)

lemma find_delimiter_frame:
  assumes "plain_line s"
  shows "find_window delimiter (frame_bytes s @ rest) = Some (length (as_bytes s))"
proof -
  let ?buf = "frame_bytes s @ rest"
  have no_cr: "0x0D \<notin> set (as_bytes s)"
    using assms as_bytes_ascii [of s "0x0D"] by (auto simp: plain_line_def)
  have "occurs_at delimiter ?buf (length (as_bytes s))"
    by (simp add: occurs_at_def frame_bytes_def)
  moreover have "\<not> occurs_at delimiter ?buf j" if "j < length (as_bytes s)" for j
  proof
    assume "occurs_at delimiter ?buf j"
    then have "?buf ! j = 0x0D" unfolding delimiter_def by (rule occurs_at_nth)
    then have "as_bytes s ! j = 0x0D"
      using that by (simp add: frame_bytes_def nth_append)
    with that no_cr show False by (metis nth_mem)
  qed
  ultimately show ?thesis by (simp add: find_window_Some_iff)
qed

lemma decode_frame_bytes:
  assumes "plain_line s"
  shows "decode self (frame_bytes s @ rest)
    = and_then (decode_command self s) (\<lambda>(result, self'). Inr (result, self', rest))"
  using assms
  by (simp add: decode_find find_delimiter_frame)
    (simp add: frame_bytes_def from_utf8_lossy_as_bytes plain_line_def)

text \<open>
  (C23) \<open>decode\<close> asks for more input exactly when the buffer holds no blank line, and then
  leaves the codec and the buffer as they are.
\<close>

theorem decode_waits_iff:
  "decode self buf = Inr (Inr None, self', buf') \<longleftrightarrow>
     (\<nexists>pre post. buf = pre @ delimiter @ post) \<and> self' = self \<and> buf' = buf"
  by (auto simp: decode_None_iff find_window_None_iff occurs_at_split)

text \<open>
  (C16) When \<open>decode\<close> returns a command or an error, it has taken exactly one frame off the
  front of the buffer: the bytes up to the first blank line and the blank line itself; the
  bytes behind it are left untouched for the next call.
\<close>

theorem decode_takes_one_frame:
  assumes "decode self buf = Inr (result, self', buf')" and "result \<noteq> Inr None"
  shows "\<exists>text. buf = text @ delimiter @ buf'
      \<and> (\<nexists>pre post. text @ delimiter @ buf' = pre @ delimiter @ post \<and> length pre < length text)
      \<and> decode_command self (from_utf8_lossy text) = Inr (result, self')"
proof -
  from assms obtain i where i: "find_window delimiter buf = Some i" "buf' = drop (i + 4) buf"
    "decode_command self (from_utf8_lossy (take i buf)) = Inr (result, self')"
    by (rule decode_consumes)
  from find_delimiter_split [OF i(1)] have buf: "buf = take i buf @ delimiter @ buf'"
    and len: "length (take i buf) = i"
    by (simp_all add: i(2))
  have "\<not> occurs_at delimiter buf j" if "j < i" for j
    using i(1) that by (simp add: find_window_Some_iff)
  with len have "\<nexists>pre post. buf = pre @ delimiter @ post \<and> length pre < length (take i buf)"
    by (metis occurs_at_split)
  with buf i(3) show ?thesis by metis
qed

theorem decode_takes_one_frame_witness:
  "\<exists>text. as_bytes (str ''PING'') @ delimiter @ [1] = text @ delimiter @ [1]
      \<and> (\<nexists>pre post. text @ delimiter @ [1] = pre @ delimiter @ post \<and> length pre < length text)
      \<and> decode_command new_codec (from_utf8_lossy text) = Inr (Inr (Some Ping), new_codec)"
proof (rule decode_takes_one_frame)
  show "decode new_codec (as_bytes (str ''PING'') @ delimiter @ [1])
      = Inr (Inr (Some Ping), new_codec, [1])"
    by code_simp
qed simp

lemma drain_texts:
  assumes "list_all2 (\<lambda>s c. plain_line s \<and> decode_command new_codec s = Inr (Inr (Some c), new_codec))
      texts commands"
    and "find_window delimiter rest = None"
  shows "drain new_codec (concat (map frame_bytes texts) @ rest)
    = (commands, Pending new_codec rest)"
  using assms(1)
proof (induction rule: list_all2_induct)
  case Nil
  from assms(2) show ?case by (simp add: drain_Pending)
next
  case (Cons s texts c commands)
  have "decode new_codec (frame_bytes s @ concat (map frame_bytes texts) @ rest)
      = Inr (Inr (Some c), new_codec, concat (map frame_bytes texts) @ rest)"
    using Cons.hyps by (subst decode_frame_bytes) simp_all
  with Cons.IH show ?case by (simp add: drain_Some)
qed

text \<open>
  (C15) Pipelined commands come out in order: a buffer holding the frames of several texts,
  each of which decodes to a command, followed by an incomplete rest, drains to exactly
  those commands and keeps the rest.
\<close>

theorem drain_pipeline:
  assumes "list_all2 (\<lambda>s c. plain_line s \<and> decode_command new_codec s = Inr (Inr (Some c), new_codec))
      texts commands"
    and "find_window delimiter rest = None"
  shows "drain new_codec (concat (map frame_bytes texts) @ rest)
    = (commands, Pending new_codec rest)"
  using assms by (rule drain_texts)

lemmas codec_eval [eval_simps] =
  decode_command_def new_codec_def reset_def byte_len_def as_bytes_def encode_utf8_def
  plain_line_def is_scalar_def connect_data_def attribute_data_def index_at_def Let_def

theorem drain_pipeline_witness:
  "drain new_codec (concat (map frame_bytes [str ''HMAC'', str ''PING'', str ''.'']) @ [0x0D])
    = ([HMAC, Ping, Dot], Pending new_codec [0x0D])"
proof (rule drain_pipeline)
  show "list_all2 (\<lambda>s c. plain_line s \<and> decode_command new_codec s = Inr (Inr (Some c), new_codec))
      [str ''HMAC'', str ''PING'', str ''.''] [HMAC, Ping, Dot]"
    by (simp add: eval_simps)
  show "find_window delimiter [0x0D] = None"
    by code_simp
qed

text \<open>
  (C24) Reading never leaves a complete frame behind: what stays in the buffer when more
  input is awaited is a suffix of the input without a blank line, and the codec is the one
  that was started with or a freshly reset one.
\<close>

theorem drain_rest:
  assumes "drain self buf = (commands, Pending self' rest)"
  shows "suffix rest buf \<and> (\<nexists>pre post. rest = pre @ delimiter @ post)
      \<and> self' = (if commands = [] then self else reset self)"
  using assms
proof (induction self buf arbitrary: commands rule: drain.induct)
  case (1 self buf)
  show ?case
  proof (cases self buf rule: decode_cases)
    case wait
    with "1.prems" show ?thesis
      by (auto simp: drain_Pending find_window_None_iff occurs_at_split)
  next
    case (command c self2 buf2)
    with "1.prems" obtain cs where cs: "drain self2 buf2 = (cs, Pending self' rest)" "commands = c # cs"
      by (cases "drain self2 buf2") (auto simp: drain_Some)
    from command obtain i where i: "buf2 = drop (i + 4) buf"
      "decode_command self (from_utf8_lossy (take i buf)) = Inr (Inr (Some c), self2)"
      by (auto elim: decode_consumes)
    then have "self2 = reset self" and "suffix buf2 buf"
      by (auto dest: decode_command_Some intro: suffix_drop)
    with "1.IH" [OF command refl refl refl refl cs(1)] cs(2) show ?thesis
      by (auto simp: reset_def intro: suffix_order.trans split: if_splits)
  qed (use "1.prems" in \<open>simp_all add: drain_cases\<close>)
qed

theorem drain_rest_witness:
  "suffix [0x0D, 0x0A] (frame_bytes (str ''PING'') @ [0x0D, 0x0A])
    \<and> (\<nexists>pre post. [0x0D, 0x0A] = pre @ delimiter @ post)
    \<and> new_codec = (if [Ping] = [] then FtlCodec [7] else reset (FtlCodec [7]))"
proof (rule drain_rest)
  show "drain (FtlCodec [7]) (frame_bytes (str ''PING'') @ [0x0D, 0x0A])
      = ([Ping], Pending new_codec [0x0D, 0x0A])"
    by code_simp
qed

section \<open>The commands\<close>

lemma connect_data_Inl_iff:
  "connect_data command = Inl p \<longleftrightarrow>
     (count_list command 0x20 < 2 \<and> p = Index_Out_Of_Bounds 2 (Suc (count_list command 0x20)))
     \<or> (2 \<le> count_list command 0x20 \<and> split_on 0x20 command ! 2 = [] \<and> p = Cannot_Remove_Char)"
proof (cases "2 \<le> count_list command 0x20")
  case True
  then have "2 < length (split_on 0x20 command)" by (simp add: length_split_on)
  with True show ?thesis
    by (cases "split_on 0x20 command ! 2") (auto simp: connect_data_def index_at_def)
next
  case False
  then have "length (split_on 0x20 command) \<le> 2" by (simp add: length_split_on)
  with False show ?thesis
    by (auto simp: connect_data_def index_at_Inl length_split_on)
qed

lemma attribute_data_Inr:
  assumes "contains (str '':'') command"
  shows "attribute_data command
    = Inr (Mapping.update (str ''value'') (trim (split_on 0x3A command ! 1))
        (Mapping.update (str ''key'') (split_on 0x3A command ! 0) Mapping.empty))"
proof -
  from assms have "0x3A \<in> set command" by (simp add: contains_char)
  then have "1 < length (split_on 0x3A command)"
    using count_list_0_iff [of command "0x3A"] by (simp add: length_split_on)
  then show ?thesis by (simp add: attribute_data_def index_at_def Let_def)
qed

lemma DISCONNECT_contains_CONNECT:
  "contains (str ''DISCONNECT'') s \<Longrightarrow> contains (str ''CONNECT'') s"
  by (rule contains_trans [of _ "str ''DISCONNECT''"]) (simp_all add: str_Cons)

text \<open>
  (C20) The only input that makes the decoder panic is a CONNECT command (one whose text
  contains CONNECT, but neither HMAC nor DISCONNECT) with fewer than two spaces, or with
  nothing between the second space and the next. In particular no attribute, however
  malformed, panics.
\<close>

theorem decode_command_panics_iff:
  "decode_command self command = Inl p \<longleftrightarrow>
     contains (str ''CONNECT'') command
     \<and> \<not> contains (str ''HMAC'') command \<and> \<not> contains (str ''DISCONNECT'') command
     \<and> (count_list command 0x20 < 2 \<and> p = Index_Out_Of_Bounds 2 (Suc (count_list command 0x20))
        \<or> 2 \<le> count_list command 0x20 \<and> split_on 0x20 command ! 2 = [] \<and> p = Cannot_Remove_Char)"
  by (auto simp: decode_command_def and_then_Inl_iff connect_data_Inl_iff attribute_data_Inr)

text \<open>What the client writes to connect and to announce an attribute.\<close>

definition connect_line :: "rstring \<Rightarrow> rstring \<Rightarrow> rstring" where
  "connect_line channel key = str ''CONNECT '' @ channel @ str '' $'' @ key"

definition attribute_line :: "rstring \<Rightarrow> rstring \<Rightarrow> rstring" where
  "attribute_line key value = key @ str '': '' @ value"

definition connect_map :: "rstring \<Rightarrow> rstring \<Rightarrow> hash_map" where
  "connect_map channel key =
     Mapping.update (str ''stream_key'') key (Mapping.update (str ''channel_id'') channel Mapping.empty)"

definition attribute_map :: "rstring \<Rightarrow> rstring \<Rightarrow> hash_map" where
  "attribute_map key value =
     Mapping.update (str ''value'') value (Mapping.update (str ''key'') key Mapping.empty)"

lemma lookup_connect_map [simp]:
  "Mapping.lookup (connect_map channel key) (str ''stream_key'') = Some key"
  "Mapping.lookup (connect_map channel key) (str ''channel_id'') = Some channel"
  by (simp_all add: connect_map_def Mapping.lookup_update' Mapping.lookup_empty)

lemma lookup_attribute_map [simp]:
  "Mapping.lookup (attribute_map key value) (str ''key'') = Some key"
  "Mapping.lookup (attribute_map key value) (str ''value'') = Some value"
  by (simp_all add: attribute_map_def Mapping.lookup_update' Mapping.lookup_empty)

lemma connect_line_contains: "contains (str ''CONNECT'') (connect_line channel key)"
  by (simp add: connect_line_def str_Cons)

lemma split_connect_line:
  assumes "0x20 \<notin> set channel" and "0x20 \<notin> set key"
  shows "split_on 0x20 (connect_line channel key) = [str ''CONNECT'', channel, 0x24 # key]"
proof -
  have "connect_line channel key = str ''CONNECT'' @ 0x20 # channel @ 0x20 # 0x24 # key"
    by (simp add: connect_line_def str_Cons)
  moreover have "0x20 \<notin> set (str ''CONNECT'')" by (simp add: str_Cons)
  ultimately show ?thesis using assms by (simp add: split_on_append split_on_no_sep)
qed

lemma plain_connect_line: "plain_line channel \<Longrightarrow> plain_line key \<Longrightarrow> plain_line (connect_line channel key)"
  by (simp add: connect_line_def) (simp add: plain_line_def is_scalar_def str_Cons)

lemma plain_attribute_line: "plain_line key \<Longrightarrow> plain_line value \<Longrightarrow> plain_line (attribute_line key value)"
  by (simp add: attribute_line_def) (simp add: plain_line_def is_scalar_def str_Cons)

text \<open>Which lines are read as what they are written for.\<close>

definition connect_ok :: "rstring \<Rightarrow> rstring \<Rightarrow> bool" where
  "connect_ok channel key \<longleftrightarrow>
     plain_line channel \<and> plain_line key \<and> 0x20 \<notin> set channel \<and> 0x20 \<notin> set key
     \<and> \<not> contains (str ''HMAC'') (connect_line channel key)
     \<and> \<not> contains (str ''DISCONNECT'') (connect_line channel key)"

definition attribute_ok :: "rstring \<Rightarrow> rstring \<Rightarrow> bool" where
  "attribute_ok key value \<longleftrightarrow>
     plain_line key \<and> plain_line value \<and> 0x3A \<notin> set key \<and> 0x3A \<notin> set value
     \<and> trim value = value
     \<and> \<not> contains (str ''HMAC'') (attribute_line key value)
     \<and> \<not> contains (str ''CONNECT'') (attribute_line key value)"

lemma decode_connect_line:
  assumes "connect_ok channel key"
  shows "decode_command self (connect_line channel key)
    = Inr (Inr (Some (Connect (connect_map channel key))), reset self)"
proof -
  have "connect_data (connect_line channel key) = Inr (connect_map channel key)"
    using assms
    by (simp add: connect_ok_def connect_data_def split_connect_line index_at_def connect_map_def
        Let_def)
  with assms show ?thesis
    by (simp add: connect_ok_def decode_command_def connect_line_contains)
qed

lemma decode_attribute_line:
  assumes "attribute_ok key value"
  shows "decode_command self (attribute_line key value)
    = Inr (Inr (Some (Attribute (attribute_map key value))), reset self)"
proof -
  let ?line = "attribute_line key value"
  note ok = assms [unfolded attribute_ok_def]
  have line: "?line = key @ 0x3A # 0x20 # value" by (simp add: attribute_line_def str_Cons)
  have colon: "contains (str '':'') ?line" by (simp add: contains_char line)
  moreover have "split_on 0x3A ?line = [key, 0x20 # value]"
    using ok by (simp add: line split_on_append split_on_no_sep)
  then have "attribute_data ?line = Inr (attribute_map key value)"
    using ok colon
    by (simp add: attribute_data_Inr attribute_map_def trim_Cons_space is_whitespace_def)
  moreover have "\<not> contains (str ''DISCONNECT'') ?line"
    using ok DISCONNECT_contains_CONNECT by blast
  ultimately show ?thesis using ok by (simp add: decode_command_def)
qed

text \<open>
  (C18) Round trip of CONNECT: the frame of a connect line decodes to a \<open>Connect\<close> command
  carrying exactly the channel id and the stream key that were written (the \<open>$\<close> before
  the key removed), provided neither holds a space and the line does not contain the
  words that are tested first.
\<close>

theorem connect_roundtrip:
  assumes "connect_ok channel key"
  shows "decode self (frame_bytes (connect_line channel key) @ rest)
    = Inr (Inr (Some (Connect (connect_map channel key))), reset self, rest)"
  using assms decode_connect_line [OF assms]
  by (simp add: connect_ok_def decode_frame_bytes plain_connect_line)

theorem connect_roundtrip_witness:
  "decode new_codec (frame_bytes (connect_line (str ''77'') (str ''a1b2'')) @ [1, 2])
    = Inr (Inr (Some (Connect (connect_map (str ''77'') (str ''a1b2'')))), reset new_codec, [1, 2])"
  by (rule connect_roundtrip) (simp add: connect_ok_def connect_line_def eval_simps)

text \<open>
  (C19) Round trip of an attribute: the frame of \<open>key: value\<close> decodes to the pair, for any
  key and value without a colon, the value without surrounding white space.
\<close>

theorem attribute_roundtrip:
  assumes "attribute_ok key value"
  shows "decode self (frame_bytes (attribute_line key value) @ rest)
    = Inr (Inr (Some (Attribute (attribute_map key value))), reset self, rest)"
  using assms decode_attribute_line [OF assms]
  by (simp add: attribute_ok_def decode_frame_bytes plain_attribute_line)

theorem attribute_roundtrip_witness:
  "decode new_codec (frame_bytes (attribute_line (str ''VideoWidth'') (str ''1280'')) @ [9])
    = Inr (Inr (Some (Attribute (attribute_map (str ''VideoWidth'') (str ''1280'')))),
        reset new_codec, [9])"
  by (rule attribute_roundtrip)
    (simp add: attribute_ok_def attribute_line_def eval_simps trim_def is_whitespace_def)

text \<open>
  (C21) The order of the tests matters: a CONNECT whose channel id or stream key happens to
  contain the letters HMAC is taken for an HMAC request, whatever its other fields are.
\<close>

theorem connect_shadowed:
  assumes "plain_line channel" "plain_line key"
    and "contains (str ''HMAC'') channel \<or> contains (str ''HMAC'') key"
  shows "decode self (frame_bytes (connect_line channel key) @ rest)
    = Inr (Inr (Some HMAC), reset self, rest)"
proof -
  have "contains (str ''HMAC'') (connect_line channel key)"
    using assms(3) unfolding connect_line_def
    by (auto intro: contains_append_left contains_append_right)
  moreover have "plain_line (connect_line channel key)"
    using assms(1,2) by (rule plain_connect_line)
  ultimately show ?thesis
    by (simp add: decode_frame_bytes decode_command_def)
qed

theorem connect_shadowed_witness:
  "decode new_codec (frame_bytes (connect_line (str ''77'') (str ''xHMACy'')) @ [])
    = Inr (Inr (Some HMAC), reset new_codec, [])"
  by (rule connect_shadowed) (simp_all add: eval_simps)

text \<open>
  (C22) An attribute is cut at its second colon: the value keeps only what stands between
  the first and the second, so that a value containing a colon reaches the handler truncated.
\<close>

theorem attribute_value_cut:
  assumes "0x3A \<notin> set key" "0x3A \<notin> set value"
    and "\<not> contains (str ''HMAC'') (attribute_line key (value @ 0x3A # more))"
    and "\<not> contains (str ''CONNECT'') (attribute_line key (value @ 0x3A # more))"
  shows "decode_command self (attribute_line key (value @ 0x3A # more))
    = Inr (Inr (Some (Attribute (attribute_map key (trim value)))), reset self)"
proof -
  let ?line = "attribute_line key (value @ 0x3A # more)"
  have line: "?line = key @ 0x3A # (0x20 # value) @ 0x3A # more"
    by (simp add: attribute_line_def str_Cons)
  have colon: "contains (str '':'') ?line" by (simp add: contains_char line)
  have "split_on 0x3A ?line = key # (0x20 # value) # split_on 0x3A more"
    unfolding line using assms(1,2) by (subst split_on_append | simp)+
  then have "attribute_data ?line = Inr (attribute_map key (trim value))"
    using colon
    by (simp add: attribute_data_Inr attribute_map_def trim_Cons_space is_whitespace_def)
  moreover have "\<not> contains (str ''DISCONNECT'') ?line"
    using assms(4) DISCONNECT_contains_CONNECT by blast
  ultimately show ?thesis
    using assms(3,4) colon by (simp add: decode_command_def)
qed

theorem attribute_value_cut_witness:
  "decode_command new_codec (attribute_line (str ''VendorName'') (str ''obs'' @ 0x3A # str ''studio''))
    = Inr (Inr (Some (Attribute (attribute_map (str ''VendorName'') (trim (str ''obs''))))), reset new_codec)"
  by (rule attribute_value_cut) (simp_all add: attribute_line_def eval_simps)

text \<open>
  (C35) A dot command is the single character \<open>.\<close> and nothing else; every other text with a
  dot in it is some other command or unsupported.
\<close>

theorem decode_dot_iff:
  "decode_command self command = Inr (Inr (Some Dot), self') \<longleftrightarrow>
     command = str ''.'' \<and> self' = reset self"
proof
  assume dot: "decode_command self command = Inr (Inr (Some Dot), self')"
  then have "contains (str ''.'') command" "byte_len command = 1"
    by (auto simp: decode_command_def and_then_Inr_iff split: if_splits)
  then have "command = str ''.''"
    by (auto simp: byte_len_one_iff [simplified] contains_char str_Cons)
  with decode_command_Some [OF dot] show "command = str ''.'' \<and> self' = reset self" by simp
next
  assume "command = str ''.'' \<and> self' = reset self"
  then show "decode_command self command = Inr (Inr (Some Dot), self')"
    by (simp add: eval_simps)
qed

section \<open>Well-formed commands\<close>

text \<open>
  What the handler relies on: a \<open>Connect\<close> carries both of its keys and an \<open>Attribute\<close> both of
  its, all of them well-formed strings; fields hold no separator and attribute values no
  surrounding white space.
\<close>

fun command_ok :: "FtlCommand \<Rightarrow> bool" where
  "command_ok (Connect data) \<longleftrightarrow>
     (case (Mapping.lookup data (str ''channel_id''), Mapping.lookup data (str ''stream_key'')) of
        (Some channel, Some key) \<Rightarrow>
          valid_string channel \<and> valid_string key \<and> 0x20 \<notin> set channel \<and> 0x20 \<notin> set key
      | _ \<Rightarrow> False)"
| "command_ok (Attribute data) \<longleftrightarrow>
     (case (Mapping.lookup data (str ''key''), Mapping.lookup data (str ''value'')) of
        (Some key, Some value) \<Rightarrow>
          valid_string key \<and> valid_string value \<and> 0x3A \<notin> set key \<and> 0x3A \<notin> set value
          \<and> trim value = value
      | _ \<Rightarrow> False)"
| "command_ok _ \<longleftrightarrow> True"

lemma valid_split:
  "valid_string s \<Longrightarrow> p \<in> set (split_on c s) \<Longrightarrow> valid_string p"
  using split_on_subset [of p c s] by (auto simp: valid_string_def list_all_iff)

lemma connect_data_ok:
  assumes "connect_data command = Inr data" and "valid_string command"
  shows "command_ok (Connect data)"
proof -
  let ?parts = "split_on 0x20 command"
  from assms(1) obtain key where parts: "2 < length ?parts" "remove_first (?parts ! 2) = Inr key"
    and data: "data = connect_map (?parts ! 1) key"
    by (auto simp: connect_data_def index_at_def and_then_Inr_iff connect_map_def Let_def
        split: if_splits)
  then obtain c where key: "?parts ! 2 = c # key" by (cases "?parts ! 2") auto
  have "?parts ! 1 \<in> set ?parts" "?parts ! 2 \<in> set ?parts" using parts(1) by simp_all
  with assms(2) key have "valid_string (?parts ! 1)" "valid_string (c # key)"
    "0x20 \<notin> set (?parts ! 1)" "0x20 \<notin> set (c # key)"
    by (metis valid_split split_on_parts)+
  then show ?thesis by (simp add: data)
qed

lemma trim_trim: "trim (trim s) = trim s"
  using trim_ends [of s] by (intro trim_id) auto

lemma attribute_data_ok:
  assumes "contains (str '':'') command" and "valid_string command"
    and "attribute_data command = Inr data"
  shows "command_ok (Attribute data)"
proof -
  let ?parts = "split_on 0x3A command"
  from assms(1) have "0x3A \<in> set command" by (simp add: contains_char)
  then have "1 < length ?parts"
    using count_list_0_iff [of command "0x3A"] by (simp add: length_split_on)
  then have "?parts ! 0 \<in> set ?parts" "?parts ! 1 \<in> set ?parts" by (auto intro: nth_mem)
  with assms(2) have parts: "valid_string (?parts ! 0)" "valid_string (?parts ! 1)"
    "0x3A \<notin> set (?parts ! 0)" "0x3A \<notin> set (?parts ! 1)"
    by (metis valid_split split_on_parts)+
  then have "valid_string (trim (?parts ! 1))" "0x3A \<notin> set (trim (?parts ! 1))"
    using trim_set [of "?parts ! 1"] by (auto intro: valid_trim)
  moreover note parts
  moreover have "data = attribute_map (?parts ! 0) (trim (?parts ! 1))"
    using assms(1,3) by (simp add: attribute_data_Inr attribute_map_def)
  ultimately show ?thesis by (simp add: trim_trim)
qed

lemma decode_command_ok:
  assumes "decode_command self command = Inr (Inr (Some c), self')" and "valid_string command"
  shows "command_ok c"
  using assms
  by (auto simp: decode_command_def and_then_Inr_iff simp del: command_ok.simps(1,2)
      intro: connect_data_ok attribute_data_ok split: if_splits)

lemma drain_ok: "list_all command_ok (fst (drain self buf))"
proof (induction self buf rule: drain.induct)
  case (1 self buf)
  show ?case
  proof (cases self buf rule: decode_cases)
    case (command c self' buf')
    then obtain i where
      "decode_command self (from_utf8_lossy (take i buf)) = Inr (Inr (Some c), self')"
      by (auto elim: decode_consumes)
    then have "command_ok c" by (rule decode_command_ok) (rule valid_from_utf8_lossy)
    with 1 command show ?thesis by (simp add: drain_Some)
  qed (simp_all add: drain_cases)
qed

lemma feed_ok: "list_all command_ok (fst (feed self [] chunks))"
  using feed_drain [of self "[]" chunks] drain_ok [of self "concat chunks"]
  by (simp add: drain_Pending find_window_Nil)

text \<open>
  (C17) Every command read off any byte stream is well formed, whatever bytes the client
  sends: the handler never sees a \<open>Connect\<close> or an \<open>Attribute\<close> with a missing field.
\<close>

theorem feed_commands_ok: "list_all command_ok (fst (feed self [] chunks))"
  by (rule feed_ok)

text \<open>
  (C34) Round trip of the encoder: it appends to the write buffer bytes that read back as the
  line, \<open>byte_len\<close> of them, and leaves what was already buffered and the codec alone.
\<close>

theorem encode_roundtrip:
  assumes "valid_string line"
  shows "\<exists>out. encode self line buf = (Inr (), self, buf @ out)
      \<and> length out = byte_len line \<and> from_utf8_lossy out = line"
  using assms by (simp add: encode_def byte_len_def from_utf8_lossy_as_bytes)

theorem encode_roundtrip_witness:
  "\<exists>out. encode new_codec (str ''201'') [7] = (Inr (), new_codec, [7] @ out)
      \<and> length out = byte_len (str ''201'') \<and> from_utf8_lossy out = str ''201''"
  by (rule encode_roundtrip) (simp add: eval_simps)

end
