(* ===== verification/Connection_State.thy ===== *)
theory Connection_State
  imports Ftl_Codec
begin

text \<open>
  The attributes negotiated with one client (\<open>connection/state.rs\<close>): the record, its
  default, the HMAC payload and the report written to the log. \<open>negotiated\<close> is the abstract
  view of the record as a store from attribute names to their texts, the specification the
  attribute handler is proved against.
\<close>

section \<open>The record\<close>

record ConnectionState =
  hmac_payload :: "rstring option"
  protocol_version :: "rstring option"
  vendor_name :: "rstring option"
  vendor_version :: "rstring option"
  video :: bool
  video_codec :: "rstring option"
  video_height :: "rstring option"
  video_width :: "rstring option"
  video_payload_type :: "rstring option"
  video_ingest_ssrc :: "rstring option"
  audio :: bool
  audio_codec :: "rstring option"
  audio_payload_type :: "rstring option"
  audio_ingest_ssrc :: "rstring option"
  rtp_port :: "u16 option"
  stream_key :: "rstring option"

definition new_state :: ConnectionState where
  "new_state =
     \<lparr> hmac_payload = None,
       protocol_version = None,
       vendor_name = None,
       vendor_version = None,
       video = False,
       video_codec = None,
       video_height = None,
       video_width = None,
       video_payload_type = None,
       video_ingest_ssrc = None,
       audio = False,
       audio_codec = None,
       audio_payload_type = None,
       audio_ingest_ssrc = None,
       rtp_port = None,
       stream_key = None \<rparr>"

definition get_payload :: "ConnectionState \<Rightarrow> rstring" where
  "get_payload self = (case hmac_payload self of Some payload \<Rightarrow> payload | None \<Rightarrow> [])"

section \<open>The report in the log\<close>

datatype log_line = Info rstring | Warn rstring

definition print_field :: "rstring \<Rightarrow> rstring option \<Rightarrow> log_line" where
  "print_field label field =
     (case field of
        Some v \<Rightarrow> Info (label @ str '': '' @ v)
      | None \<Rightarrow> Warn (label @ str '': None''))"

definition print :: "ConnectionState \<Rightarrow> log_line list" where
  "print self =
     [print_field (str ''Protocol Version'') (protocol_version self),
      print_field (str ''Vendor Name'') (vendor_name self),
      print_field (str ''Vendor Version'') (vendor_version self),
      print_field (str ''Video Codec'') (video_codec self),
      print_field (str ''Video Height'') (video_height self),
      print_field (str ''Video Width'') (video_width self),
      print_field (str ''Audio Codec'') (audio_codec self)]"

section \<open>The attributes as a store\<close>

definition text_fields :: "(rstring \<times> (ConnectionState \<Rightarrow> rstring option)) list" where
  "text_fields =
     [(str ''ProtocolVersion'', protocol_version),
      (str ''VendorName'', vendor_name),
      (str ''VendorVersion'', vendor_version),
      (str ''VideoCodec'', video_codec),
      (str ''VideoHeight'', video_height),
      (str ''VideoWidth'', video_width),
      (str ''VideoPayloadType'', video_payload_type),
      (str ''VideoIngestSSRC'', video_ingest_ssrc),
      (str ''AudioCodec'', audio_codec),
      (str ''AudioPayloadType'', audio_payload_type),
      (str ''AudioIngestSSRC'', audio_ingest_ssrc)]"

definition flag_fields :: "(rstring \<times> (ConnectionState \<Rightarrow> bool)) list" where
  "flag_fields = [(str ''Video'', video), (str ''Audio'', audio)]"

definition bool_text :: "bool \<Rightarrow> rstring" where
  "bool_text b = (if b then str ''true'' else str ''false'')"

definition negotiated :: "ConnectionState \<Rightarrow> rstring \<Rightarrow> rstring option" where
  "negotiated st key =
     (case map_of text_fields key of
        Some field \<Rightarrow> field st
      | None \<Rightarrow> map_option (\<lambda>flag. bool_text (flag st)) (map_of flag_fields key))"

lemmas field_tables = text_fields_def flag_fields_def

text \<open>What an attribute does to the store: known names are overwritten, flags only by a
  boolean text, anything else is ignored.\<close>

definition store_attribute ::
  "rstring \<Rightarrow> rstring \<Rightarrow> (rstring \<Rightarrow> rstring option) \<Rightarrow> rstring \<Rightarrow> rstring option" where
  "store_attribute key value m =
     (if key \<in> fst ` set text_fields
         \<or> key \<in> fst ` set flag_fields \<and> value \<in> {str ''true'', str ''false''}
      then m(key \<mapsto> value) else m)"

lemma text_names:
  "map fst text_fields =
     [str ''ProtocolVersion'', str ''VendorName'', str ''VendorVersion'', str ''VideoCodec'',
      str ''VideoHeight'', str ''VideoWidth'', str ''VideoPayloadType'', str ''VideoIngestSSRC'',
      str ''AudioCodec'', str ''AudioPayloadType'', str ''AudioIngestSSRC'']"
  by (simp only: text_fields_def list.map fst_conv)

lemma distinct_text_names: "distinct (map fst text_fields)"
  unfolding text_names by code_simp

lemma negotiated_text: "(name, field) \<in> set text_fields \<Longrightarrow> negotiated st name = field st"
  by (simp add: negotiated_def map_of_is_SomeI distinct_text_names)

lemma flag_names_not_text: "key \<in> {str ''Video'', str ''Audio''} \<Longrightarrow> map_of text_fields key = None"
proof -
  have "str ''Video'' \<notin> set (map fst text_fields)" "str ''Audio'' \<notin> set (map fst text_fields)"
    unfolding text_names by code_simp+
  then show "key \<in> {str ''Video'', str ''Audio''} \<Longrightarrow> map_of text_fields key = None"
    unfolding map_of_eq_None_iff by force
qed

lemma negotiated_Video: "negotiated st (str ''Video'') = Some (bool_text (video st))"
  using flag_names_not_text [of "str ''Video''"]
  by (simp add: negotiated_def flag_fields_def)

lemma negotiated_Audio: "negotiated st (str ''Audio'') = Some (bool_text (audio st))"
proof -
  have "str ''Video'' \<noteq> str ''Audio''" by simp
  then show ?thesis
    using flag_names_not_text [of "str ''Audio''"]
    by (simp add: negotiated_def flag_fields_def)
qed

lemma bool_text_inject [simp]: "bool_text a = bool_text b \<longleftrightarrow> a = b"
  by (simp add: bool_text_def)

end
