(* ===== verification/Services.thy ===== *)
theory Services
  imports Connection_State
begin

text \<open>
  The calls the connection makes to the world outside (\<open>connection/mod.rs\<close>, the last five
  functions): the notifications over a websocket, the port requests to the WebRTC server
  and the HMAC challenge. The third-party clients they use (reqwest, tungstenite,
  serde_json, rand, hex) and the process environment are the fields of a record \<open>net\<close>;
  every operation with an effect takes the state of the world and returns the next one.
\<close>

section \<open>The outside world\<close>

type_synonym net_error = rstring

datatype ws_message = Text rstring | Other_Message

record ('w, 'v) net =
  env_var :: "rstring \<Rightarrow> rstring option"
    \<comment> \<open>\<open>env::var\<close>; \<open>None\<close> for an error\<close>
  http_post :: "rstring \<Rightarrow> 'w \<Rightarrow> (net_error + (net_error + 'v)) \<times> 'w"
    \<comment> \<open>\<open>client.post(url).send()\<close>; a response carries what \<open>json::<Value>()\<close> makes of its body\<close>
  http_delete :: "rstring \<Rightarrow> 'w \<Rightarrow> (net_error + unit) \<times> 'w"
  json_get :: "'v \<Rightarrow> rstring \<Rightarrow> 'v option"
  json_as_u64 :: "'v \<Rightarrow> u64 option"
  json_text :: "(rstring \<times> rstring) list \<Rightarrow> rstring"
    \<comment> \<open>the text of \<open>json!({..})\<close> for an object of strings\<close>
  ws_connect :: "rstring \<Rightarrow> 'w \<Rightarrow> (net_error + nat) \<times> 'w"
  ws_send :: "nat \<Rightarrow> ws_message \<Rightarrow> 'w \<Rightarrow> (net_error + unit) \<times> 'w"
  ws_next :: "nat \<Rightarrow> 'w \<Rightarrow> (net_error + ws_message) option \<times> 'w"
  rng_uniform :: "u8 \<Rightarrow> u8 \<Rightarrow> 'w \<Rightarrow> u8 \<times> 'w"
    \<comment> \<open>\<open>rng.sample(Uniform::new(low, high))\<close>\<close>
  hex_encode :: "u8 list \<Rightarrow> rstring"
  sock_send :: "rstring \<Rightarrow> 'w \<Rightarrow> (FtlError + unit) \<times> 'w"
    \<comment> \<open>\<open>Framed::send\<close> on the client's socket\<close>

section \<open>Stream notifications\<close>

definition auth_url :: rstring where
  "auth_url = str ''wss://meow.com/stream/auth''"

definition notify_stream_start ::
  "('w, 'v) net \<Rightarrow> rstring \<Rightarrow> 'w \<Rightarrow> (net_error + unit) \<times> 'w" where
  "notify_stream_start net key w =
     (case ws_connect net auth_url w of
        (Inl e, w) \<Rightarrow> (Inl e, w)
      | (Inr ws, w) \<Rightarrow>
          (let msg = json_text net [(str ''stream_key'', key)] in
           case ws_send net ws (Text msg) w of
             (Inl e, w) \<Rightarrow> (Inl e, w)
           | (Inr _, w) \<Rightarrow> (Inr (), snd (ws_next net ws w))))"

definition notify_stream_end ::
  "('w, 'v) net \<Rightarrow> rstring \<Rightarrow> 'w \<Rightarrow> (net_error + unit) \<times> 'w" where
  "notify_stream_end net key w =
     (case ws_connect net auth_url w of
        (Inl e, w) \<Rightarrow> (Inl e, w)
      | (Inr ws, w) \<Rightarrow>
          (let msg = json_text net [(str ''stream_key'', key), (str ''status'', str ''ended'')] in
           ws_send net ws (Text msg) w))"

section \<open>Ports\<close>

definition server_url :: "('w, 'v) net \<Rightarrow> rstring" where
  "server_url net =
     (case env_var net (str ''WEBRTC_SERVER_URL'') of
        Some url \<Rightarrow> url
      | None \<Rightarrow> str ''http://localhost:8080'')"

definition allocate_port :: "('w, 'v) net \<Rightarrow> 'w \<Rightarrow> u16 option \<times> 'w" where
  "allocate_port net w =
     (let base = server_url net in
      case http_post net (base @ str ''/stream'') w of
        (Inr resp, w) \<Rightarrow>
          ((case resp of
              Inr v \<Rightarrow>
                map_option (\<lambda>p. ucast p) (Option.bind (json_get net v (str ''port'')) (json_as_u64 net))
            | Inl _ \<Rightarrow> None), w)
      | (Inl e, w) \<Rightarrow> (None, w))"

definition free_port :: "('w, 'v) net \<Rightarrow> u16 \<Rightarrow> 'w \<Rightarrow> 'w" where
  "free_port net port w =
     (let base = server_url net in
      snd (http_delete net (base @ str ''/stream?port='' @ show_nat (unat port)) w))"

section \<open>The HMAC challenge\<close>

fun sample_loop :: "('w, 'v) net \<Rightarrow> nat \<Rightarrow> u8 list \<Rightarrow> 'w \<Rightarrow> u8 list \<times> 'w" where
  "sample_loop net 0 payload w = (payload, w)"
| "sample_loop net (Suc n) payload w =
     (case rng_uniform net 0x00 0xFF w of
        (b, w) \<Rightarrow> sample_loop net n (payload @ [b]) w)"

definition generate_hmac :: "('w, 'v) net \<Rightarrow> 'w \<Rightarrow> rstring \<times> 'w" where
  "generate_hmac net w =
     (case sample_loop net 128 [] w of (payload, w) \<Rightarrow> (hex_encode net payload, w))"

section \<open>What the code relies on\<close>

text \<open>
  The documented behaviour of the two libraries the challenge uses: a uniform distribution
  over \<open>[low, high)\<close> yields values of that range, and \<open>hex::encode\<close> writes two lower-case
  hexadecimal digits per byte.
\<close>

definition uniform_law :: "('w, 'v) net \<Rightarrow> bool" where
  "uniform_law net \<longleftrightarrow>
     (\<forall>low high w. low < high \<longrightarrow>
        low \<le> fst (rng_uniform net low high w) \<and> fst (rng_uniform net low high w) < high)"

definition hex_digits :: rstring where
  "hex_digits = str ''0123456789abcdef''"

definition hex_law :: "('w, 'v) net \<Rightarrow> bool" where
  "hex_law net \<longleftrightarrow>
     (\<forall>bs. length (hex_encode net bs) = 2 * length bs \<and> set (hex_encode net bs) \<subseteq> set hex_digits)"

text \<open>
  A concrete network, for evaluating the definitions: a counter as its state, a server that
  hands out the ports 7000, 7001, \<dots>, no auth server, and a random generator that counts.
\<close>

definition hex_byte :: "u8 \<Rightarrow> rstring" where
  "hex_byte b = [hex_digits ! (unat b div 16), hex_digits ! (unat b mod 16)]"

definition counting_net :: "(nat, u64) net" where
  "counting_net =
     \<lparr> env_var = (\<lambda>_. None),
       http_post = (\<lambda>_ w. (Inr (Inr (word_of_nat (7000 + w))), Suc w)),
       http_delete = (\<lambda>_ w. (Inr (), w)),
       json_get = (\<lambda>v k. if k = str ''port'' then Some v else None),
       json_as_u64 = Some,
       json_text = (\<lambda>fields. concat (map (\<lambda>(k, v). k @ v) fields)),
       ws_connect = (\<lambda>_ w. (Inl (str ''refused''), w)),
       ws_send = (\<lambda>_ _ w. (Inr (), w)),
       ws_next = (\<lambda>_ w. (None, w)),
       rng_uniform = (\<lambda>low high w. (low, Suc w)),
       hex_encode = (\<lambda>bs. concat (map hex_byte bs)),
       sock_send = (\<lambda>_ w. (Inr (), w)) \<rparr>"

lemma counting_net_uniform: "uniform_law counting_net"
  by (simp add: uniform_law_def counting_net_def)

lemma hex_byte_digits: "set (hex_byte b) \<subseteq> set hex_digits"
proof -
  have "length hex_digits = 16" by (simp add: hex_digits_def str_Cons)
  moreover have "unat b div 16 < 16" using unsigned_less [of b, where 'a = nat] by (simp add: less_mult_imp_div_less)
  ultimately show ?thesis by (simp add: hex_byte_def)
qed

lemma counting_net_hex: "hex_law counting_net"
proof -
  have "length (concat (map hex_byte bs)) = 2 * length bs" for bs
    by (induction bs) (auto simp: hex_byte_def)
  then show ?thesis
    using hex_byte_digits by (force simp: hex_law_def counting_net_def)
qed

text \<open>Its services, evaluated.\<close>

lemma counting_net_calls [simp]:
  "allocate_port counting_net w = (Some (ucast (word_of_nat (7000 + w) :: u64)), Suc w)"
  "free_port counting_net port w = w"
  "notify_stream_start counting_net key w = (Inl (str ''refused''), w)"
  "snd (notify_stream_end counting_net key w) = w"
  by (simp_all add: allocate_port_def free_port_def notify_stream_start_def notify_stream_end_def
      counting_net_def)

section \<open>The challenge\<close>

lemma sample_loop_law:
  assumes "uniform_law net"
  shows "\<exists>bs. fst (sample_loop net n payload w) = payload @ bs \<and> length bs = n \<and> 0xFF \<notin> set bs"
proof (induction n arbitrary: payload w)
  case 0
  then show ?case by simp
next
  case (Suc n)
  obtain b w' where b: "rng_uniform net 0x00 0xFF w = (b, w')" by (cases "rng_uniform net 0x00 0xFF w")
  moreover have "fst (rng_uniform net 0x00 0xFF w) < 0xFF"
    using assms by (simp add: uniform_law_def)
  ultimately have "b < 0xFF" by simp
  moreover obtain bs where "fst (sample_loop net n (payload @ [b]) w') = (payload @ [b]) @ bs"
    "length bs = n" "0xFF \<notin> set bs"
    using Suc.IH [of "payload @ [b]" w'] by blast
  ultimately show ?case using b by (intro exI [of _ "b # bs"]) auto
qed

text \<open>
  (C29) The HMAC challenge is the hexadecimal text of exactly 128 sampled bytes, 256 digits,
  and, because the distribution excludes its upper bound, no byte of it is ever 0xFF.
\<close>

theorem generate_hmac_payload:
  assumes "uniform_law net" and "hex_law net"
  shows "\<exists>bs. fst (generate_hmac net w) = hex_encode net bs \<and> length bs = 128 \<and> 0xFF \<notin> set bs
      \<and> length (fst (generate_hmac net w)) = 256
      \<and> set (fst (generate_hmac net w)) \<subseteq> set hex_digits"
proof -
  from sample_loop_law [OF assms(1), of 128 "[]" w] obtain bs
    where bs: "fst (sample_loop net 128 [] w) = bs" "length bs = 128" "0xFF \<notin> set bs"
    by auto
  then have "fst (generate_hmac net w) = hex_encode net bs"
    by (auto simp: generate_hmac_def split: prod.split)
  with bs assms(2) show ?thesis by (auto simp: hex_law_def)
qed

theorem generate_hmac_payload_witness:
  "\<exists>bs. fst (generate_hmac counting_net 0) = hex_encode counting_net bs \<and> length bs = 128
      \<and> 0xFF \<notin> set bs \<and> length (fst (generate_hmac counting_net 0)) = 256
      \<and> set (fst (generate_hmac counting_net 0)) \<subseteq> set hex_digits"
  using generate_hmac_payload [OF counting_net_uniform counting_net_hex] .

section \<open>Ports and notifications\<close>

text \<open>
  (C30) A port the server answers with is truncated to 16 bits: whenever the answer holds a
  number, that number modulo 65536 is the allocated port, so an answer above 65535 silently
  becomes another port; every other answer, and every failure, allocates nothing.
\<close>

theorem allocate_port_truncates:
  "map_option unat (fst (allocate_port net w)) =
     (case fst (http_post net (server_url net @ str ''/stream'') w) of
        Inr (Inr v) \<Rightarrow>
          map_option (\<lambda>n. unat n mod 65536)
            (Option.bind (json_get net v (str ''port'')) (json_as_u64 net))
      | _ \<Rightarrow> None)"
proof -
  have cast: "unat (ucast n :: u16) = unat n mod 65536" for n :: u64
    by (simp add: unsigned_ucast_eq take_bit_eq_mod)
  show ?thesis
    by (cases "http_post net (server_url net @ str ''/stream'') w")
       (auto simp: allocate_port_def option.map_comp comp_def cast
         split: sum.split option.split)
qed

text \<open>
  (C33) The notifications ignore the environment: whatever the variables are set to,
  \<open>AUTH_WS_URL\<close> included, both notifications connect to the fixed address and send the same
  message; the port requests look at \<open>WEBRTC_SERVER_URL\<close> only.
\<close>

theorem notifications_ignore_environment:
  fixes env env' :: "rstring \<Rightarrow> rstring option"
  assumes "env' (str ''WEBRTC_SERVER_URL'') = env (str ''WEBRTC_SERVER_URL'')"
  shows "notify_stream_start (net\<lparr>env_var := env'\<rparr>) key w = notify_stream_start (net\<lparr>env_var := env\<rparr>) key w
    \<and> notify_stream_end (net\<lparr>env_var := env'\<rparr>) key w = notify_stream_end (net\<lparr>env_var := env\<rparr>) key w
    \<and> allocate_port (net\<lparr>env_var := env'\<rparr>) w = allocate_port (net\<lparr>env_var := env\<rparr>) w
    \<and> free_port (net\<lparr>env_var := env'\<rparr>) port w = free_port (net\<lparr>env_var := env\<rparr>) port w"
  using assms
  by (simp add: notify_stream_start_def notify_stream_end_def allocate_port_def free_port_def
      server_url_def Let_def
      cong: sum.case_cong prod.case_cong option.case_cong)

theorem notifications_ignore_environment_witness:
  "notify_stream_start (counting_net\<lparr>env_var := (\<lambda>v. if v = str ''AUTH_WS_URL'' then Some [1] else None)\<rparr>) [2] 0
      = notify_stream_start (counting_net\<lparr>env_var := \<lambda>_. None\<rparr>) [2] 0
    \<and> notify_stream_end (counting_net\<lparr>env_var := (\<lambda>v. if v = str ''AUTH_WS_URL'' then Some [1] else None)\<rparr>) [2] 0
      = notify_stream_end (counting_net\<lparr>env_var := \<lambda>_. None\<rparr>) [2] 0
    \<and> allocate_port (counting_net\<lparr>env_var := (\<lambda>v. if v = str ''AUTH_WS_URL'' then Some [1] else None)\<rparr>) 0
      = allocate_port (counting_net\<lparr>env_var := \<lambda>_. None\<rparr>) 0
    \<and> free_port (counting_net\<lparr>env_var := (\<lambda>v. if v = str ''AUTH_WS_URL'' then Some [1] else None)\<rparr>) 5 0
      = free_port (counting_net\<lparr>env_var := \<lambda>_. None\<rparr>) 5 0"
  by (rule notifications_ignore_environment) simp

end
