(* ===== verification/Handler.thy ===== *)
theory Handler
  imports Services
begin

text \<open>
  What the connection does with one command (\<open>connection/mod.rs\<close>): \<open>handle_command\<close> for the
  negotiation, one iteration of the command task's loop (\<open>conn_recv\<close>), and
  \<open>handle_frame_command\<close>, which writes a reply to the socket. Each returns the next
  connection state, the service calls it made, what it wants to send to the other task and
  the next state of the world.
\<close>

section \<open>Replies and calls\<close>

datatype FrameCommand = Send "rstring list"

text \<open>The record of the calls made to the outside, in order, with the answer that matters.\<close>

datatype service_call =
    Notify_Start rstring
  | Notify_End rstring
  | Allocate "u16 option"
  | Free u16

definition newline :: rstring where
  "newline = [0x0A]"

section \<open>Negotiation\<close>

text \<open>
  The assignment an attribute makes; \<open>None\<close> is the early return on a flag that is neither
  \<open>true\<close> nor \<open>false\<close>. Unknown names are logged and change nothing.
\<close>

definition set_flag :: "rstring \<Rightarrow> (bool \<Rightarrow> ConnectionState) \<Rightarrow> ConnectionState option" where
  "set_flag value assign =
     (if value = str ''true'' then Some (assign True)
      else if value = str ''false'' then Some (assign False)
      else None)"

definition set_attribute :: "rstring \<Rightarrow> rstring \<Rightarrow> ConnectionState \<Rightarrow> ConnectionState option" where
  "set_attribute key value conn =
     (if key = str ''ProtocolVersion'' then Some (conn\<lparr>protocol_version := Some value\<rparr>)
      else if key = str ''VendorName'' then Some (conn\<lparr>vendor_name := Some value\<rparr>)
      else if key = str ''VendorVersion'' then Some (conn\<lparr>vendor_version := Some value\<rparr>)
      else if key = str ''Video'' then set_flag value (\<lambda>b. conn\<lparr>video := b\<rparr>)
      else if key = str ''VideoCodec'' then Some (conn\<lparr>video_codec := Some value\<rparr>)
      else if key = str ''VideoHeight'' then Some (conn\<lparr>video_height := Some value\<rparr>)
      else if key = str ''VideoWidth'' then Some (conn\<lparr>video_width := Some value\<rparr>)
      else if key = str ''VideoPayloadType'' then Some (conn\<lparr>video_payload_type := Some value\<rparr>)
      else if key = str ''VideoIngestSSRC'' then Some (conn\<lparr>video_ingest_ssrc := Some value\<rparr>)
      else if key = str ''Audio'' then set_flag value (\<lambda>b. conn\<lparr>audio := b\<rparr>)
      else if key = str ''AudioCodec'' then Some (conn\<lparr>audio_codec := Some value\<rparr>)
      else if key = str ''AudioPayloadType'' then Some (conn\<lparr>audio_payload_type := Some value\<rparr>)
      else if key = str ''AudioIngestSSRC'' then Some (conn\<lparr>audio_ingest_ssrc := Some value\<rparr>)
      else Some conn)"

text \<open>
  \<open>handle_command\<close>: the reply is what it sends on the channel to the frame task, \<open>None\<close> when
  it returns without sending. A failed send is only logged, so it ends the function in any case.
\<close>

fun handle_command ::
  "('w, 'v) net \<Rightarrow> FtlCommand \<Rightarrow> ConnectionState \<Rightarrow> 'w
    \<Rightarrow> ConnectionState \<times> service_call list \<times> FrameCommand option \<times> 'w" where
  "handle_command net HMAC conn w =
     (case generate_hmac net w of
        (payload, w) \<Rightarrow>
          (let conn = conn\<lparr>hmac_payload := Some payload\<rparr> in
           (conn, [], Some (Send [str ''200 '', get_payload conn, newline]), w)))"
| "handle_command net (Connect data) conn w =
     (case (Mapping.lookup data (str ''stream_key''), Mapping.lookup data (str ''channel_id'')) of
        (Some key, Some channel_id) \<Rightarrow>
          (let conn = conn\<lparr>stream_key := Some key\<rparr> in
           case notify_stream_start net key w of
             (result, w) \<Rightarrow> (conn, [Notify_Start key], Some (Send [str ''200'' @ newline]), w))
      | _ \<Rightarrow> (conn, [], None, w))"
| "handle_command net (Attribute data) conn w =
     (case (Mapping.lookup data (str ''key''), Mapping.lookup data (str ''value'')) of
        (Some key, Some value) \<Rightarrow>
          (case set_attribute key value conn of
             Some conn \<Rightarrow> (conn, [], Some (Send [[]]), w)
           | None \<Rightarrow> (conn, [], None, w))
      | _ \<Rightarrow> (conn, [], None, w))"
| "handle_command net Ping conn w = (conn, [], Some (Send [str ''201'' @ newline]), w)"
| "handle_command net _ conn w = (conn, [], None, w)"

section \<open>One iteration of the command task\<close>

text \<open>
  What follows an iteration: the task returns, sends a reply and then goes on (or returns)
  according to whether the send succeeded, or waits for the next command at once.
\<close>

datatype conn_next =
    Return
  | Reply FrameCommand (on_sent: bool) (on_failed: bool) \<comment> \<open>whether the loop goes on\<close>
  | Loop

text \<open>The clean-up of a disconnect and of a closed channel: end the stream, free the port.\<close>

definition end_session ::
  "('w, 'v) net \<Rightarrow> ConnectionState \<Rightarrow> 'w \<Rightarrow> service_call list \<times> 'w" where
  "end_session net state w =
     (let (ended, w) =
        (case stream_key state of
           Some key \<Rightarrow> ([Notify_End key], snd (notify_stream_end net key w))
         | None \<Rightarrow> ([], w));
        (freed, w) =
        (case rtp_port state of
           Some port \<Rightarrow> ([Free port], free_port net port w)
         | None \<Rightarrow> ([], w))
      in (ended @ freed, w))"

definition dot_reply :: "u16 \<Rightarrow> FrameCommand" where
  "dot_reply port = Send [str ''200 hi. Use UDP port '' @ show_nat (unat port) @ newline]"

definition alloc_failed_reply :: FrameCommand where
  "alloc_failed_reply = Send [str ''500 failed to allocate port'' @ newline]"

text \<open>The port the session uses: the one it has, or a newly allocated one.\<close>

definition ensure_port ::
  "('w, 'v) net \<Rightarrow> ConnectionState \<Rightarrow> 'w \<Rightarrow> ConnectionState \<times> service_call list \<times> 'w" where
  "ensure_port net state w =
     (if rtp_port state = None then
        (case allocate_port net w of (port, w) \<Rightarrow> (state\<lparr>rtp_port := port\<rparr>, [Allocate port], w))
      else (state, [], w))"

fun conn_recv ::
  "('w, 'v) net \<Rightarrow> FtlCommand option \<Rightarrow> ConnectionState \<Rightarrow> 'w
    \<Rightarrow> ConnectionState \<times> service_call list \<times> conn_next \<times> 'w" where
  "conn_recv net (Some Disconnect) state w =
     (case end_session net state w of (calls, w) \<Rightarrow> (state, calls, Return, w))"
| "conn_recv net (Some Dot) state w =
     (case ensure_port net state w of
        (state, calls, w) \<Rightarrow>
          (case rtp_port state of
             None \<Rightarrow> (state, calls, Reply alloc_failed_reply False False, w)
           | Some port \<Rightarrow> (state, calls, Reply (dot_reply port) True False, w)))"
| "conn_recv net (Some command) state w =
     (case handle_command net command state w of
        (state, calls, reply, w) \<Rightarrow>
          (state, calls, (case reply of Some r \<Rightarrow> Reply r True True | None \<Rightarrow> Loop), w))"
| "conn_recv net None state w =
     (case end_session net state w of (calls, w) \<Rightarrow> (state, calls, Return, w))"

section \<open>Writing a reply\<close>

datatype frame_error = Write_Failed FtlError | No_Frame_Command

text \<open>The loop that pops the reversed copy of the data and writes each item.\<close>

function write_loop ::
  "('w, 'v) net \<Rightarrow> rstring list \<Rightarrow> 'w \<Rightarrow> (frame_error + unit) \<times> 'w" where
  "write_loop net d w =
     (if d = [] then (Inr (), w)
      else
        (let item = last d; d = butlast d in
         case sock_send net item w of
           (Inr _, w) \<Rightarrow> write_loop net d w
         | (Inl e, w) \<Rightarrow> (Inl (Write_Failed e), w)))"
  by pat_completeness auto
termination
  by (relation "measure (\<lambda>(net, d, w). length d)") auto

fun handle_frame_command ::
  "('w, 'v) net \<Rightarrow> FrameCommand option \<Rightarrow> 'w \<Rightarrow> (frame_error + unit) \<times> 'w" where
  "handle_frame_command net (Some (Send data)) w = write_loop net (rev data) w"
| "handle_frame_command net None w = (Inl No_Frame_Command, w)"

declare write_loop.simps [simp del]

text \<open>The specification of the reply writer: the items front to back, up to the first failure.\<close>

fun send_all :: "('w, 'v) net \<Rightarrow> rstring list \<Rightarrow> 'w \<Rightarrow> (frame_error + unit) \<times> 'w" where
  "send_all net [] w = (Inr (), w)"
| "send_all net (item # items) w =
     (case sock_send net item w of
        (Inr _, w) \<Rightarrow> send_all net items w
      | (Inl e, w) \<Rightarrow> (Inl (Write_Failed e), w))"

lemma write_loop_rev: "write_loop net (rev data) w = send_all net data w"
proof (induction data arbitrary: w)
  case Nil
  then show ?case by (simp add: write_loop.simps)
next
  case (Cons item items)
  then show ?case
    by (subst write_loop.simps) (simp split: prod.split sum.split)
qed

text \<open>
  (C32) Reversing the data and popping from the end writes the items in their original
  order: \<open>handle_frame_command\<close> is the plain in-order writer that stops at the first error.
\<close>

theorem handle_frame_command_in_order:
  "handle_frame_command net (Some (Send data)) w = send_all net data w"
  by (simp add: write_loop_rev)

section \<open>Attributes\<close>

abbreviation flag_names :: "rstring set" where
  "flag_names \<equiv> {str ''Video'', str ''Audio''}"

abbreviation flag_texts :: "rstring set" where
  "flag_texts \<equiv> {str ''true'', str ''false''}"

lemma set_attribute_None_iff:
  "set_attribute key value conn = None \<longleftrightarrow> key \<in> flag_names \<and> value \<notin> flag_texts"
  by (simp add: set_attribute_def set_flag_def)

lemma set_attribute_frame:
  assumes "set_attribute key value conn = Some conn'"
  shows "rtp_port conn' = rtp_port conn" "stream_key conn' = stream_key conn"
    "hmac_payload conn' = hmac_payload conn"
  using assms by (auto simp: set_attribute_def set_flag_def split: if_splits)

lemma negotiated_chain:
  "negotiated st key =
     (if key = str ''ProtocolVersion'' then protocol_version st
      else if key = str ''VendorName'' then vendor_name st
      else if key = str ''VendorVersion'' then vendor_version st
      else if key = str ''Video'' then Some (bool_text (video st))
      else if key = str ''VideoCodec'' then video_codec st
      else if key = str ''VideoHeight'' then video_height st
      else if key = str ''VideoWidth'' then video_width st
      else if key = str ''VideoPayloadType'' then video_payload_type st
      else if key = str ''VideoIngestSSRC'' then video_ingest_ssrc st
      else if key = str ''Audio'' then Some (bool_text (audio st))
      else if key = str ''AudioCodec'' then audio_codec st
      else if key = str ''AudioPayloadType'' then audio_payload_type st
      else if key = str ''AudioIngestSSRC'' then audio_ingest_ssrc st
      else None)"
proof (cases "key \<in> flag_names")
  case True
  then show ?thesis
    using negotiated_Video [of st] negotiated_Audio [of st] by auto
next
  case False
  then show ?thesis by (simp add: negotiated_def text_fields_def flag_fields_def)
qed

text \<open>Each assignment overwrites its own name in the store.\<close>

lemma negotiated_update [simp]:
  "negotiated (st\<lparr>protocol_version := Some v\<rparr>) = (negotiated st)(str ''ProtocolVersion'' \<mapsto> v)"
  "negotiated (st\<lparr>vendor_name := Some v\<rparr>) = (negotiated st)(str ''VendorName'' \<mapsto> v)"
  "negotiated (st\<lparr>vendor_version := Some v\<rparr>) = (negotiated st)(str ''VendorVersion'' \<mapsto> v)"
  "negotiated (st\<lparr>video := b\<rparr>) = (negotiated st)(str ''Video'' \<mapsto> bool_text b)"
  "negotiated (st\<lparr>video_codec := Some v\<rparr>) = (negotiated st)(str ''VideoCodec'' \<mapsto> v)"
  "negotiated (st\<lparr>video_height := Some v\<rparr>) = (negotiated st)(str ''VideoHeight'' \<mapsto> v)"
  "negotiated (st\<lparr>video_width := Some v\<rparr>) = (negotiated st)(str ''VideoWidth'' \<mapsto> v)"
  "negotiated (st\<lparr>video_payload_type := Some v\<rparr>) = (negotiated st)(str ''VideoPayloadType'' \<mapsto> v)"
  "negotiated (st\<lparr>video_ingest_ssrc := Some v\<rparr>) = (negotiated st)(str ''VideoIngestSSRC'' \<mapsto> v)"
  "negotiated (st\<lparr>audio := b\<rparr>) = (negotiated st)(str ''Audio'' \<mapsto> bool_text b)"
  "negotiated (st\<lparr>audio_codec := Some v\<rparr>) = (negotiated st)(str ''AudioCodec'' \<mapsto> v)"
  "negotiated (st\<lparr>audio_payload_type := Some v\<rparr>) = (negotiated st)(str ''AudioPayloadType'' \<mapsto> v)"
  "negotiated (st\<lparr>audio_ingest_ssrc := Some v\<rparr>) = (negotiated st)(str ''AudioIngestSSRC'' \<mapsto> v)"
  by (rule ext, simp add: negotiated_chain)+

lemma store_attribute_names:
  "store_attribute key value m =
     (if key \<in> set (map fst text_fields) \<or> key \<in> flag_names \<and> value \<in> flag_texts
      then m(key \<mapsto> value) else m)"
  by (auto simp: store_attribute_def flag_fields_def)

lemma set_attribute_store:
  "negotiated (case set_attribute key value conn of Some c \<Rightarrow> c | None \<Rightarrow> conn)
    = store_attribute key value (negotiated conn)"
  unfolding store_attribute_names text_names
  by (auto simp: set_attribute_def set_flag_def bool_text_def)

text \<open>The attributes a client announces, handled one after the other.\<close>

fun handle_attributes ::
  "('w, 'v) net \<Rightarrow> (rstring \<times> rstring) list \<Rightarrow> ConnectionState \<Rightarrow> 'w \<Rightarrow> ConnectionState" where
  "handle_attributes net [] conn w = conn"
| "handle_attributes net ((key, value) # attrs) conn w =
     (case handle_command net (Attribute (attribute_map key value)) conn w of
        (conn, calls, reply, w) \<Rightarrow> handle_attributes net attrs conn w)"

lemma handle_attribute_store:
  "handle_command net (Attribute (attribute_map key value)) conn w = (conn', calls, reply, w') \<Longrightarrow>
     negotiated conn' = store_attribute key value (negotiated conn)"
  by (subst set_attribute_store [symmetric]) (auto split: option.splits)

text \<open>
  (C10) Negotiation refines a key-value store: handling a sequence of attributes leaves the
  store that the specification's updates leave, so the last value sent for a name is the one
  kept, unknown names and flags that are no boolean texts change nothing, and no attribute
  disturbs another.
\<close>

theorem handle_attributes_refine_store:
  "negotiated (handle_attributes net attrs conn w)
    = fold (\<lambda>(key, value). store_attribute key value) attrs (negotiated conn)"
proof (induction attrs arbitrary: conn w)
  case Nil
  then show ?case by simp
next
  case (Cons attr attrs)
  obtain key v where attr: "attr = (key, v)" by (cases attr)
  obtain conn' calls reply w' where
    step: "handle_command net (Attribute (attribute_map key v)) conn w = (conn', calls, reply, w')"
    by (cases "handle_command net (Attribute (attribute_map key v)) conn w")
  with Cons.IH [of conn' w'] handle_attribute_store [OF step] attr show ?case by simp
qed

section \<open>Replies\<close>

text \<open>The attributes the handler drops without a word: a flag with a text that is no boolean.\<close>

definition bad_flag :: "FtlCommand \<Rightarrow> bool" where
  "bad_flag command \<longleftrightarrow>
     (case command of
        Attribute data \<Rightarrow>
          (case (Mapping.lookup data (str ''key''), Mapping.lookup data (str ''value'')) of
             (Some key, Some value) \<Rightarrow> key \<in> flag_names \<and> value \<notin> flag_texts
           | _ \<Rightarrow> False)
      | _ \<Rightarrow> False)"

lemma handle_command_reply_None:
  assumes "handle_command net command conn w = (conn', calls, reply, w')"
    and "command_ok command" and "command \<noteq> Dot" and "command \<noteq> Disconnect"
  shows "reply = None \<longleftrightarrow> bad_flag command"
proof (cases command)
  case (Attribute data)
  from assms(2) obtain key v where
    "Mapping.lookup data (str ''key'') = Some key" "Mapping.lookup data (str ''value'') = Some v"
    by (auto simp: Attribute split: option.splits)
  with assms(1) Attribute show ?thesis
    using set_attribute_None_iff [of key v conn]
    by (cases "set_attribute key v conn") (auto simp: bad_flag_def)
qed (use assms in \<open>auto simp: bad_flag_def Let_def split: prod.splits option.splits\<close>)

text \<open>
  (C25) Every well-formed negotiation command is answered exactly once, except one kind: an
  attribute \<open>Video\<close> or \<open>Audio\<close> whose value is neither \<open>true\<close> nor \<open>false\<close> gets no reply at all,
  and leaves the connection state as it was.
\<close>

theorem handle_command_silent_iff:
  assumes "handle_command net command conn w = (conn', calls, reply, w')"
    and "command_ok command" and "command \<noteq> Dot" and "command \<noteq> Disconnect"
  shows "(reply = None \<longleftrightarrow> bad_flag command) \<and> (bad_flag command \<longrightarrow> conn' = conn \<and> calls = [])"
proof -
  from assms have "reply = None \<longleftrightarrow> bad_flag command" by (rule handle_command_reply_None)
  moreover have "conn' = conn \<and> calls = []" if "bad_flag command"
    using that assms(1)
    by (auto simp: bad_flag_def split: FtlCommand.splits option.splits)
       (auto simp: set_attribute_def set_flag_def split: if_splits)
  ultimately show ?thesis by blast
qed

theorem handle_command_silent_iff_witness:
  "bad_flag (Attribute (attribute_map (str ''Video'') (str ''yes'')))
    \<and> handle_command counting_net (Attribute (attribute_map (str ''Video'') (str ''yes''))) new_state 0
        = (new_state, [], None, 0)"
proof -
  let ?command = "Attribute (attribute_map (str ''Video'') (str ''yes''))"
  have step: "handle_command counting_net ?command new_state 0 = (new_state, [], None, 0)"
    by (simp add: set_attribute_def set_flag_def)
  have "command_ok ?command"
    by (simp add: valid_string_def) (simp add: eval_simps trim_def is_whitespace_def)
  from handle_command_silent_iff [OF step this] step show ?thesis by simp
qed

text \<open>
  (C26) A connect is accepted whatever the auth service says: for every network and every
  state of the world, the stream key is stored, the service is notified of it and the client
  is told 200; the answer of the service, and a failure to reach it, make no difference.
\<close>

theorem connect_always_accepted:
  "\<exists>w'. handle_command net (Connect (connect_map channel key)) conn w
    = (conn\<lparr>stream_key := Some key\<rparr>, [Notify_Start key], Some (Send [str ''200'' @ newline]), w')"
  by (auto simp: Let_def split: prod.split)

text \<open>
  (C27) The negotiation handler never touches the RTP port, replaces the stream key only on a
  connect and the HMAC payload only on an HMAC request, and its only service call is the
  notification of the key it has just stored.
\<close>

theorem handle_command_frame:
  assumes "handle_command net command conn w = (conn', calls, reply, w')"
  shows "rtp_port conn' = rtp_port conn
    \<and> (hmac_payload conn' = hmac_payload conn \<or> command = HMAC)
    \<and> (calls = [] \<and> stream_key conn' = stream_key conn
       \<or> (\<exists>data key. command = Connect data \<and> Mapping.lookup data (str ''stream_key'') = Some key
            \<and> stream_key conn' = Some key \<and> calls = [Notify_Start key]))"
  using assms
  by (cases command)
     (auto simp: Let_def set_attribute_frame split: prod.splits option.splits)

theorem handle_command_frame_witness:
  "rtp_port (new_state\<lparr>stream_key := Some [7]\<rparr>) = rtp_port new_state
    \<and> (hmac_payload (new_state\<lparr>stream_key := Some [7]\<rparr>) = hmac_payload new_state
       \<or> Connect (connect_map [1] [7]) = HMAC)
    \<and> ([Notify_Start [7]] = [] \<and> stream_key (new_state\<lparr>stream_key := Some [7]\<rparr>) = stream_key new_state
       \<or> (\<exists>data key. Connect (connect_map [1] [7]) = Connect data
            \<and> Mapping.lookup data (str ''stream_key'') = Some key
            \<and> stream_key (new_state\<lparr>stream_key := Some [7]\<rparr>) = Some key
            \<and> [Notify_Start [7]] = [Notify_Start key]))"
proof (rule handle_command_frame)
  show "handle_command counting_net (Connect (connect_map [1] [7])) new_state 0
    = (new_state\<lparr>stream_key := Some [7]\<rparr>, [Notify_Start [7]], Some (Send [str ''200'' @ newline]), 0)"
    by (simp add: counting_net_def notify_stream_start_def)
qed

text \<open>
  (C28) An HMAC request stores a fresh payload and the reply, its items written one after the
  other, is \<open>200\<close>, a space, that same payload and a newline; nothing else changes.
\<close>

theorem hmac_reply:
  "\<exists>data. handle_command net HMAC conn w
      = (conn\<lparr>hmac_payload := Some (fst (generate_hmac net w))\<rparr>, [], Some (Send data),
         snd (generate_hmac net w))
    \<and> concat data = str ''200 '' @ fst (generate_hmac net w) @ newline"
  by (auto simp: get_payload_def Let_def split: prod.split)

text \<open>
  (C31) The reply to a dot names the port in decimal: the digits after the fixed text read
  back as the allocated port, up to the newline.
\<close>

theorem dot_reply_port:
  "\<exists>digits. dot_reply port = Send [str ''200 hi. Use UDP port '' @ digits @ newline]
    \<and> digits \<noteq> [] \<and> set digits \<subseteq> set (str ''0123456789'') \<and> digits_value digits = unat port"
proof -
  have "set (show_nat (unat port)) \<subseteq> {48..57}"
    using show_nat_digits [of "unat port"] by (auto simp: list_all_iff)
  also have "{48..57} = set (str ''0123456789'')"
    by (auto simp: str_Cons) presburger
  finally show ?thesis
    by (auto simp: dot_reply_def digits_value_show_nat)
qed

section \<open>One iteration, summarised\<close>

lemma handle_command_calls:
  assumes "handle_command net command conn w = (conn', calls, reply, w')"
  shows "rtp_port conn' = rtp_port conn
    \<and> (calls = [] \<and> stream_key conn' = stream_key conn
       \<or> (\<exists>key. calls = [Notify_Start key] \<and> stream_key conn' = Some key))"
  using assms
  by (cases command)
     (auto simp: Let_def set_attribute_frame split: prod.splits option.splits)

text \<open>Which reply answers which command.\<close>

fun answers :: "FtlCommand \<Rightarrow> FrameCommand \<Rightarrow> bool" where
  "answers HMAC (Send [code, payload, nl]) \<longleftrightarrow> code = str ''200 '' \<and> nl = newline"
| "answers (Connect data) (Send lines) \<longleftrightarrow> lines = [str ''200'' @ newline]"
| "answers (Attribute data) (Send lines) \<longleftrightarrow> lines = [[]]"
| "answers Ping (Send lines) \<longleftrightarrow> lines = [str ''201'' @ newline]"
| "answers Dot (Send [line]) \<longleftrightarrow>
     line = str ''500 failed to allocate port'' @ newline
     \<or> prefix (str ''200 hi. Use UDP port '') line"
| "answers _ _ \<longleftrightarrow> False"

lemma handle_command_answers:
  assumes "handle_command net command conn w = (conn', calls, Some reply, w')"
  shows "answers command reply"
  using assms
  by (cases command) (auto simp: Let_def split: prod.splits option.splits)

lemma conn_recv_answers:
  assumes "conn_recv net (Some command) st w = (st', calls, next, w')" and "command_ok command"
  shows "(next = Return \<longrightarrow> command = Disconnect)
    \<and> (\<forall>reply ok failed. next = Reply reply ok failed \<longrightarrow> answers command reply)
    \<and> (next = Loop \<longrightarrow> bad_flag command)"
proof (cases "command = Dot \<or> command = Disconnect")
  case True
  with assms(1) show ?thesis
    by (auto simp: dot_reply_def alloc_failed_reply_def split: prod.splits option.splits)
next
  case False
  then obtain reply where "handle_command net command st w = (st', calls, reply, w')"
    and "next = (case reply of Some r \<Rightarrow> Reply r True True | None \<Rightarrow> Loop)"
    using assms(1) by (cases command) (auto split: prod.splits)
  with handle_command_reply_None [of net command st w st' calls reply w']
    handle_command_answers [of net command st w st' calls _ w'] assms(2) False
  show ?thesis by (auto split: option.splits)
qed

lemma conn_recv_bad_flag:
  assumes "bad_flag command"
  shows "conn_recv net (Some command) st w = (st, [], Loop, w)"
proof -
  from assms obtain data key v where "command = Attribute data"
    and "Mapping.lookup data (str ''key'') = Some key"
    and "Mapping.lookup data (str ''value'') = Some v"
    and "key \<in> flag_names" "v \<notin> flag_texts"
    unfolding bad_flag_def by (cases command) (auto split: option.splits)
  moreover from this(4,5) have "set_attribute key v st = None"
    unfolding set_attribute_None_iff by blast
  ultimately show ?thesis by simp
qed

text \<open>The service calls of an iteration, as the clean-up and the allocation make them.\<close>

lemma end_session_calls:
  "fst (end_session net st w)
    = (case stream_key st of Some key \<Rightarrow> [Notify_End key] | None \<Rightarrow> [])
      @ (case rtp_port st of Some port \<Rightarrow> [Free port] | None \<Rightarrow> [])"
  by (auto simp: end_session_def Let_def split: option.split)

lemma ensure_port_cases:
  assumes "ensure_port net st w = (st', calls, w')"
  shows "rtp_port st \<noteq> None \<and> st' = st \<and> calls = []
    \<or> rtp_port st = None \<and> calls = [Allocate (rtp_port st')] \<and> stream_key st' = stream_key st"
proof (cases "rtp_port st")
  case None
  obtain port w2 where "allocate_port net w = (port, w2)" by (cases "allocate_port net w")
  with None assms show ?thesis by (auto simp: ensure_port_def)
qed (use assms in \<open>simp add: ensure_port_def\<close>)

section \<open>Accounts\<close>

text \<open>What a history of service calls says about ports and streams.\<close>

fun ports_allocated :: "service_call list \<Rightarrow> u16 list" where
  "ports_allocated [] = []"
| "ports_allocated (Allocate (Some port) # calls) = port # ports_allocated calls"
| "ports_allocated (_ # calls) = ports_allocated calls"

fun ports_freed :: "service_call list \<Rightarrow> u16 list" where
  "ports_freed [] = []"
| "ports_freed (Free port # calls) = port # ports_freed calls"
| "ports_freed (_ # calls) = ports_freed calls"

fun keys_started :: "service_call list \<Rightarrow> rstring list" where
  "keys_started [] = []"
| "keys_started (Notify_Start key # calls) = key # keys_started calls"
| "keys_started (_ # calls) = keys_started calls"

fun keys_ended :: "service_call list \<Rightarrow> rstring list" where
  "keys_ended [] = []"
| "keys_ended (Notify_End key # calls) = key # keys_ended calls"
| "keys_ended (_ # calls) = keys_ended calls"

definition alloc_failed :: "service_call list \<Rightarrow> bool" where
  "alloc_failed calls \<longleftrightarrow> Allocate None \<in> set calls"

lemma accounts_append [simp]:
  "ports_allocated (xs @ ys) = ports_allocated xs @ ports_allocated ys"
  "ports_freed (xs @ ys) = ports_freed xs @ ports_freed ys"
  "keys_started (xs @ ys) = keys_started xs @ keys_started ys"
  "keys_ended (xs @ ys) = keys_ended xs @ keys_ended ys"
  "alloc_failed (xs @ ys) \<longleftrightarrow> alloc_failed xs \<or> alloc_failed ys"
  by (induction xs rule: ports_allocated.induct) (auto simp: alloc_failed_def)

lemma alloc_failed_simps [simp]:
  "\<not> alloc_failed []"
  "alloc_failed (c # calls) \<longleftrightarrow> c = Allocate None \<or> alloc_failed calls"
  by (auto simp: alloc_failed_def)

definition option_list :: "'a option \<Rightarrow> 'a list" where
  "option_list opt = (case opt of Some x \<Rightarrow> [x] | None \<Rightarrow> [])"

definition last_option :: "'a list \<Rightarrow> 'a option" where
  "last_option xs = (if xs = [] then None else Some (last xs))"

text \<open>
  The accounts of a running session: nothing freed or ended yet, the port held is the one
  allocated, and the stream key is the last one announced.
\<close>

definition open_accounts :: "ConnectionState \<Rightarrow> service_call list \<Rightarrow> bool" where
  "open_accounts st calls \<longleftrightarrow>
     ports_freed calls = [] \<and> keys_ended calls = []
     \<and> ports_allocated calls = option_list (rtp_port st)
     \<and> stream_key st = last_option (keys_started calls)"

text \<open>The accounts when the command task has returned.\<close>

definition closed_accounts :: "ConnectionState \<Rightarrow> service_call list \<Rightarrow> bool" where
  "closed_accounts st calls \<longleftrightarrow>
     ports_freed calls = ports_allocated calls
     \<and> ports_allocated calls = option_list (rtp_port st)
     \<and> keys_ended calls = (if alloc_failed calls then [] else option_list (stream_key st))
     \<and> stream_key st = last_option (keys_started calls)"

lemma open_accounts_new: "open_accounts new_state []"
  by (simp add: open_accounts_def option_list_def last_option_def new_state_def)

lemma end_session_accounts:
  assumes "open_accounts st calls" "\<not> alloc_failed calls"
  shows "closed_accounts st (calls @ fst (end_session net st w))"
  using assms
  by (auto simp: open_accounts_def closed_accounts_def end_session_calls option_list_def
      split: option.split)

text \<open>One iteration of the command task keeps the accounts.\<close>

lemma conn_recv_accounts:
  assumes recv: "conn_recv net command st w = (st', calls', nxt, w')"
    and "open_accounts st calls" "\<not> alloc_failed calls"
  shows "(case nxt of
      Return \<Rightarrow> closed_accounts st' (calls @ calls')
    | Reply reply ok failed \<Rightarrow>
        open_accounts st' (calls @ calls') \<and> (alloc_failed (calls @ calls') \<longleftrightarrow> \<not> ok)
        \<and> (\<not> ok \<longrightarrow> rtp_port st' = None)
    | Loop \<Rightarrow> open_accounts st' (calls @ calls') \<and> \<not> alloc_failed (calls @ calls'))"
proof -
  have stop: ?thesis if "command = None \<or> command = Some Disconnect"
    using that recv end_session_accounts [OF assms(2,3), of net w]
    by (auto split: prod.splits)
  have dot: ?thesis if "command = Some Dot"
  proof -
    obtain st2 calls2 w2 where port: "ensure_port net st w = (st2, calls2, w2)"
      by (cases "ensure_port net st w")
    with recv that have "st' = st2" "calls' = calls2"
      "nxt = (case rtp_port st2 of None \<Rightarrow> Reply alloc_failed_reply False False
                | Some p \<Rightarrow> Reply (dot_reply p) True False)"
      by (auto split: option.splits)
    with ensure_port_cases [OF port] assms(2,3) show ?thesis
      by (auto simp: open_accounts_def option_list_def split: option.splits)
  qed
  have other: ?thesis if c: "command = Some c" "c \<noteq> Dot" "c \<noteq> Disconnect" for c
  proof -
    obtain reply where step: "handle_command net c st w = (st', calls', reply, w')"
      and nxt: "nxt = (case reply of Some r \<Rightarrow> Reply r True True | None \<Rightarrow> Loop)"
      using recv c by (cases c) (auto split: prod.splits)
    from handle_command_calls [OF step] nxt assms(2,3) show ?thesis
      by (auto simp: open_accounts_def last_option_def split: option.splits)
  qed
  from stop dot other show ?thesis by (cases command) blast+
qed

end
