(* ===== verification/Channel.thy ===== *)
theory Channel
  imports Prelude
begin

text \<open>
  The bounded channel of tokio (\<open>tokio::sync::mpsc\<close>) as an interface: the operations the two
  tasks of a connection use and the laws its documentation gives them. The model takes a
  channel as an argument; the lemmas that need the laws are proved inside the locale
  \<open>bounded_channel\<close>. Whether the peer is still there (a send to a dropped receiver fails, a
  receive with no sender left ends) is the tasks' own state and is modelled with them.
\<close>

record ('a, 'q) mpsc =
  chan_new :: "nat \<Rightarrow> 'q"
  chan_push :: "'a \<Rightarrow> 'q \<Rightarrow> 'q option" \<comment> \<open>\<open>None\<close>: no capacity, the send waits\<close>
  chan_pop :: "'q \<Rightarrow> ('a \<times> 'q) option" \<comment> \<open>\<open>None\<close>: nothing buffered\<close>

locale bounded_channel =
  fixes ch :: "('a, 'q) mpsc"
    and items :: "'q \<Rightarrow> 'a list"
    and capacity :: "'q \<Rightarrow> nat"
  assumes items_new: "items (chan_new ch n) = []"
    and capacity_new: "capacity (chan_new ch n) = n"
    and push_free: "length (items q) < capacity q \<Longrightarrow>
      \<exists>q'. chan_push ch x q = Some q' \<and> items q' = items q @ [x] \<and> capacity q' = capacity q"
    and push_full: "capacity q \<le> length (items q) \<Longrightarrow> chan_push ch x q = None"
    and pop_empty: "items q = [] \<Longrightarrow> chan_pop ch q = None"
    and pop_first: "items q = x # xs \<Longrightarrow>
      \<exists>q'. chan_pop ch q = Some (x, q') \<and> items q' = xs \<and> capacity q' = capacity q"
begin

lemma push_Some_iff:
  "chan_push ch x q = Some q' \<Longrightarrow>
     length (items q) < capacity q \<and> items q' = items q @ [x] \<and> capacity q' = capacity q"
  using push_free [of q x] push_full [of q x] by (cases "length (items q) < capacity q") auto

lemma pop_Some_iff:
  "chan_pop ch q = Some (x, q') \<Longrightarrow> items q = x # items q' \<and> capacity q' = capacity q"
  using pop_empty [of q] pop_first [of q] by (cases "items q") fastforce+

lemma pop_None_iff: "chan_pop ch q = None \<longleftrightarrow> items q = []"
  using pop_empty [of q] pop_first [of q] by (cases "items q") fastforce+

text \<open>What goes in comes out, in the same order.\<close>

lemma push_then_pop:
  "items q = [] \<Longrightarrow> chan_push ch x q = Some q' \<Longrightarrow> \<exists>q''. chan_pop ch q' = Some (x, q'') \<and> items q'' = []"
  using push_Some_iff [of x q q'] pop_first [of q' x "[]"] by auto

end

text \<open>A bounded queue in a list, with its capacity beside it, obeys the laws.\<close>

definition list_channel :: "('a, nat \<times> 'a list) mpsc" where
  "list_channel =
     \<lparr> chan_new = (\<lambda>n. (n, [])),
       chan_push = (\<lambda>x (n, xs). if length xs < n then Some (n, xs @ [x]) else None),
       chan_pop = (\<lambda>(n, xs). case xs of [] \<Rightarrow> None | x # rest \<Rightarrow> Some (x, (n, rest))) \<rparr>"

interpretation list_queue: bounded_channel list_channel snd fst
  by unfold_locales (auto simp: list_channel_def split: list.split)

end
