(* ===== verification/Connection.thy ===== *)
theory Connection
  imports Handler Channel
begin

text \<open>
  One client connection (\<open>Connection::init\<close>): the frame task, which reads commands off the
  socket and writes replies to it, and the command task, which keeps the connection state,
  joined by two channels of capacity 2. A session is the state of both tasks; a step is one
  task passing one of its await points, a read from the socket, or a change of the world
  made by others. The channels are arguments, see \<open>Channel\<close>.
\<close>

section \<open>The session\<close>

text \<open>Where the frame task waits: for the socket, to hand over a command, for a reply.\<close>

datatype frame_pc = Reading | Sending FtlCommand | Awaiting | Frame_Done

text \<open>
  Where the command task waits: for a command, or to send a reply (with what it does
  afterwards, see \<open>conn_next\<close>).
\<close>

datatype conn_pc = Receiving | Replying FrameCommand bool bool | Conn_Done

record ('w, 'q, 'r) session =
  frame :: frame_pc
  conn :: conn_pc
  state :: ConnectionState
  commands :: 'q \<comment> \<open>\<open>frame_send\<close> to \<open>conn_receive\<close>\<close>
  replies :: 'r \<comment> \<open>\<open>conn_send\<close> to \<open>frame_receive\<close>\<close>
  world :: 'w
  read_log :: "FtlCommand list" \<comment> \<open>history: the commands read off the socket\<close>
  sent_log :: "FrameCommand list" \<comment> \<open>history: the replies written to the socket\<close>
  call_log :: "service_call list" \<comment> \<open>history: the service calls\<close>

definition init_session ::
  "(FtlCommand, 'q) mpsc \<Rightarrow> (FrameCommand, 'r) mpsc \<Rightarrow> 'w \<Rightarrow> ('w, 'q, 'r) session" where
  "init_session cc rc w =
     \<lparr> frame = Reading, conn = Receiving, state = new_state,
       commands = chan_new cc 2, replies = chan_new rc 2, world = w,
       read_log = [], sent_log = [], call_log = [] \<rparr>"

section \<open>The frame task\<close>

text \<open>What \<open>frame.next()\<close> yields, or a panic of the decoder inside it.\<close>

datatype frame_event = Next "(FtlError + FtlCommand) option" | Next_Panic panic

fun frame_next :: "frame_event \<Rightarrow> frame_pc" where
  "frame_next (Next (Some (Inr command))) = Sending command"
| "frame_next (Next (Some (Inl e))) = Frame_Done"
| "frame_next (Next None) = Frame_Done"
| "frame_next (Next_Panic p) = Frame_Done"

fun event_commands :: "frame_event \<Rightarrow> FtlCommand list" where
  "event_commands (Next (Some (Inr command))) = [command]"
| "event_commands _ = []"

definition frame_read :: "frame_event \<Rightarrow> ('w, 'q, 'r) session \<Rightarrow> ('w, 'q, 'r) session" where
  "frame_read ev s = s\<lparr>frame := frame_next ev, read_log := read_log s @ event_commands ev\<rparr>"

text \<open>
  The other await points of the frame task; \<open>None\<close> while it has to wait. A send to a command
  task that has returned fails; a receive from one yields what is buffered and then \<open>None\<close>.
\<close>

definition frame_step ::
  "('w, 'v) net \<Rightarrow> (FtlCommand, 'q) mpsc \<Rightarrow> (FrameCommand, 'r) mpsc
    \<Rightarrow> ('w, 'q, 'r) session \<Rightarrow> ('w, 'q, 'r) session option" where
  "frame_step net cc rc s =
     (case frame s of
        Sending command \<Rightarrow>
          (if conn s = Conn_Done then Some (s\<lparr>frame := Frame_Done\<rparr>)
           else map_option (\<lambda>q. s\<lparr>commands := q, frame := Awaiting\<rparr>)
                  (chan_push cc command (commands s)))
      | Awaiting \<Rightarrow>
          (case chan_pop rc (replies s) of
             Some (reply, q) \<Rightarrow>
               (case handle_frame_command net (Some reply) (world s) of
                  (Inr _, w) \<Rightarrow>
                    Some (s\<lparr>replies := q, world := w, frame := Reading,
                            sent_log := sent_log s @ [reply]\<rparr>)
                | (Inl e, w) \<Rightarrow> Some (s\<lparr>replies := q, world := w, frame := Frame_Done\<rparr>))
           | None \<Rightarrow>
               (if conn s = Conn_Done then
                  (case handle_frame_command net None (world s) of
                     (Inr _, w) \<Rightarrow> Some (s\<lparr>world := w, frame := Reading\<rparr>)
                   | (Inl e, w) \<Rightarrow> Some (s\<lparr>world := w, frame := Frame_Done\<rparr>))
                else None))
      | _ \<Rightarrow> None)"

section \<open>The command task\<close>

definition conn_take ::
  "('w, 'v) net \<Rightarrow> FtlCommand option \<Rightarrow> ('w, 'q, 'r) session \<Rightarrow> ('w, 'q, 'r) session" where
  "conn_take net command s =
     (case conn_recv net command (state s) (world s) of
        (st, calls, next, w) \<Rightarrow>
          s\<lparr>state := st, world := w, call_log := call_log s @ calls,
            conn := (case next of
                       Return \<Rightarrow> Conn_Done
                     | Reply reply ok failed \<Rightarrow> Replying reply ok failed
                     | Loop \<Rightarrow> Receiving)\<rparr>)"

definition conn_step ::
  "('w, 'v) net \<Rightarrow> (FtlCommand, 'q) mpsc \<Rightarrow> (FrameCommand, 'r) mpsc
    \<Rightarrow> ('w, 'q, 'r) session \<Rightarrow> ('w, 'q, 'r) session option" where
  "conn_step net cc rc s =
     (case conn s of
        Receiving \<Rightarrow>
          (case chan_pop cc (commands s) of
             Some (command, q) \<Rightarrow> Some (conn_take net (Some command) (s\<lparr>commands := q\<rparr>))
           | None \<Rightarrow> (if frame s = Frame_Done then Some (conn_take net None s) else None))
      | Replying reply ok failed \<Rightarrow>
          (if frame s = Frame_Done then
             Some (s\<lparr>conn := (if failed then Receiving else Conn_Done)\<rparr>)
           else map_option (\<lambda>q. s\<lparr>replies := q, conn := (if ok then Receiving else Conn_Done)\<rparr>)
                  (chan_push rc reply (replies s)))
      | Conn_Done \<Rightarrow> None)"

section \<open>Steps and reachable sessions\<close>

text \<open>The decoder yields well-formed commands only (\<open>decode_command_ok\<close>).\<close>

fun event_ok :: "frame_event \<Rightarrow> bool" where
  "event_ok ev = list_all command_ok (event_commands ev)"

inductive session_step ::
  "('w, 'v) net \<Rightarrow> (FtlCommand, 'q) mpsc \<Rightarrow> (FrameCommand, 'r) mpsc
    \<Rightarrow> ('w, 'q, 'r) session \<Rightarrow> ('w, 'q, 'r) session \<Rightarrow> bool"
  for net cc rc where
  read: "frame s = Reading \<Longrightarrow> event_ok ev \<Longrightarrow> session_step net cc rc s (frame_read ev s)"
| frame_task: "frame_step net cc rc s = Some t \<Longrightarrow> session_step net cc rc s t"
| conn_task: "conn_step net cc rc s = Some t \<Longrightarrow> session_step net cc rc s t"
| others: "session_step net cc rc s (s\<lparr>world := w\<rparr>)"

inductive reachable ::
  "('w, 'v) net \<Rightarrow> (FtlCommand, 'q) mpsc \<Rightarrow> (FrameCommand, 'r) mpsc
    \<Rightarrow> ('w, 'q, 'r) session \<Rightarrow> bool"
  for net cc rc where
  start: "reachable net cc rc (init_session cc rc w)"
| step: "reachable net cc rc s \<Longrightarrow> session_step net cc rc s t \<Longrightarrow> reachable net cc rc t"

inductive_cases session_stepE: "session_step net cc rc s t"

section \<open>The two tasks run in lockstep\<close>

text \<open>
  Both channels empty and the command task waiting for a command or gone. \<open>ci\<close> and \<open>ri\<close> read
  off what the channels hold.
\<close>

definition quiet ::
  "('q \<Rightarrow> FtlCommand list) \<Rightarrow> ('r \<Rightarrow> FrameCommand list) \<Rightarrow> ('w, 'q, 'r) session \<Rightarrow> bool" where
  "quiet ci ri s \<longleftrightarrow>
     ci (commands s) = [] \<and> ri (replies s) = [] \<and> conn s \<in> {Receiving, Conn_Done}"

text \<open>
  While the frame task waits for a reply: the command is still in the channel, is being
  answered, has been answered, or there will be no answer, because the command task has
  returned or because the command was one it drops without a word.
\<close>

definition pending ::
  "('q \<Rightarrow> FtlCommand list) \<Rightarrow> ('r \<Rightarrow> FrameCommand list) \<Rightarrow> ('w, 'q, 'r) session \<Rightarrow> bool" where
  "pending ci ri s \<longleftrightarrow>
     (let command = last (read_log s) in
      case (ci (commands s), ri (replies s), conn s) of
        ([c], [], Receiving) \<Rightarrow> c = command
      | ([], [], Replying reply ok failed) \<Rightarrow> answers command reply
      | ([], [reply], Receiving) \<Rightarrow> answers command reply
      | ([], [reply], Conn_Done) \<Rightarrow> answers command reply
      | ([], [], Conn_Done) \<Rightarrow> True
      | ([], [], Receiving) \<Rightarrow> bad_flag command
      | _ \<Rightarrow> False)"

definition lockstep ::
  "('q \<Rightarrow> FtlCommand list) \<Rightarrow> ('r \<Rightarrow> FrameCommand list) \<Rightarrow> ('w, 'q, 'r) session \<Rightarrow> bool" where
  "lockstep ci ri s \<longleftrightarrow>
     list_all command_ok (read_log s)
     \<and> (case frame s of
          Reading \<Rightarrow> quiet ci ri s \<and> list_all2 answers (read_log s) (sent_log s)
        | Sending command \<Rightarrow>
            quiet ci ri s \<and> read_log s \<noteq> [] \<and> last (read_log s) = command
            \<and> list_all2 answers (butlast (read_log s)) (sent_log s)
        | Awaiting \<Rightarrow>
            pending ci ri s \<and> read_log s \<noteq> []
            \<and> list_all2 answers (butlast (read_log s)) (sent_log s)
        | Frame_Done \<Rightarrow>
            quiet ci ri s
            \<and> list_all2 answers (take (length (sent_log s)) (read_log s)) (sent_log s))"

text \<open>The accounts of the service calls, at every point of the command task.\<close>

definition accounts_ok :: "('w, 'q, 'r) session \<Rightarrow> bool" where
  "accounts_ok s \<longleftrightarrow>
     (case conn s of
        Receiving \<Rightarrow> open_accounts (state s) (call_log s) \<and> \<not> alloc_failed (call_log s)
      | Replying reply ok failed \<Rightarrow>
          open_accounts (state s) (call_log s) \<and> (alloc_failed (call_log s) \<longleftrightarrow> \<not> ok)
          \<and> (\<not> ok \<longrightarrow> rtp_port (state s) = None)
      | Conn_Done \<Rightarrow> closed_accounts (state s) (call_log s))"

lemma accounts_ok_cong:
  "conn t = conn s \<Longrightarrow> state t = state s \<Longrightarrow> call_log t = call_log s \<Longrightarrow> accounts_ok t = accounts_ok s"
  by (simp add: accounts_ok_def cong: conn_pc.case_cong)

text \<open>Both tasks wait for each other, with nothing in either channel.\<close>

definition stalled ::
  "('q \<Rightarrow> FtlCommand list) \<Rightarrow> ('r \<Rightarrow> FrameCommand list) \<Rightarrow> ('w, 'q, 'r) session \<Rightarrow> bool" where
  "stalled ci ri s \<longleftrightarrow>
     frame s = Awaiting \<and> conn s = Receiving \<and> ci (commands s) = [] \<and> ri (replies s) = []"

text \<open>The contract of the two channels of a connection.\<close>

locale session_channels =
  cmds: bounded_channel cc ci ck + reps: bounded_channel rc ri rk
  for cc :: "(FtlCommand, 'q) mpsc" and ci ck
    and rc :: "(FrameCommand, 'r) mpsc" and ri rk
begin

definition roomy :: "('w, 'q, 'r) session \<Rightarrow> bool" where
  "roomy s \<longleftrightarrow> ck (commands s) = 2 \<and> rk (replies s) = 2"

lemma lockstep_init: "lockstep ci ri (init_session cc rc w)"
  by (simp add: lockstep_def init_session_def quiet_def cmds.items_new reps.items_new)

lemma roomy_init: "roomy (init_session cc rc w)"
  by (simp add: roomy_def init_session_def cmds.capacity_new reps.capacity_new)

lemma lockstep_read:
  assumes "lockstep ci ri s" "frame s = Reading" "event_ok ev"
  shows "lockstep ci ri (frame_read ev s)"
  using assms
  by (cases ev rule: frame_next.cases)
     (auto simp: lockstep_def frame_read_def quiet_def list_all2_lengthD)

lemma lockstep_frame:
  assumes "lockstep ci ri s" "frame_step net cc rc s = Some t"
  shows "lockstep ci ri t"
proof (cases "frame s")
  case (Sending command)
  note inv = assms(1) [unfolded lockstep_def Sending, simplified]
  show ?thesis
  proof (cases "conn s = Conn_Done")
    case True
    with assms(2) Sending have "t = s\<lparr>frame := Frame_Done\<rparr>" by (simp add: frame_step_def)
    moreover have "take (length (sent_log s)) (read_log s) = butlast (read_log s)"
      using inv by (blast intro: list_all2_butlast_take)
    ultimately show ?thesis using inv by (simp add: lockstep_def quiet_def)
  next
    case False
    with assms(2) Sending obtain q where q: "chan_push cc command (commands s) = Some q"
      "t = s\<lparr>commands := q, frame := Awaiting\<rparr>"
      by (auto simp: frame_step_def)
    from cmds.push_Some_iff [OF q(1)] inv False q(2) show ?thesis
      by (auto simp: lockstep_def quiet_def pending_def)
  qed
next
  case Awaiting
  note inv = assms(1) [unfolded lockstep_def Awaiting, simplified]
  have read: "take (length (sent_log s)) (read_log s) = butlast (read_log s)"
    using inv by (blast intro: list_all2_butlast_take)
  show ?thesis
  proof (cases "chan_pop rc (replies s)")
    case None
    then have "ri (replies s) = []" by (simp add: reps.pop_None_iff)
    with assms(2) Awaiting None inv read show ?thesis
      by (auto simp: frame_step_def lockstep_def quiet_def pending_def Let_def
          split: if_splits list.splits)
  next
    case (Some rq)
    obtain reply q where rq: "rq = (reply, q)" by (cases rq)
    from Some rq have items: "ri (replies s) = reply # ri q"
      by (simp add: reps.pop_Some_iff)
    with inv have now: "ri q = []" "ci (commands s) = []" "conn s \<in> {Receiving, Conn_Done}"
      "answers (last (read_log s)) reply"
      by (auto simp: pending_def Let_def split: list.splits conn_pc.splits)
    have "list_all2 answers (read_log s) (sent_log s @ [reply])"
      using inv now(4) by (simp add: list_all2_butlast_snoc)
    with assms(2) Awaiting Some rq inv now read show ?thesis
      by (auto simp: frame_step_def lockstep_def quiet_def split: prod.splits sum.splits)
  qed
qed (use assms in \<open>simp_all add: frame_step_def\<close>)

lemma receiving_command:
  assumes "lockstep ci ri s" "conn s = Receiving" "chan_pop cc (commands s) = Some (command, q)"
  shows "frame s = Awaiting" "command = last (read_log s)" "read_log s \<noteq> []" "ci q = []"
    "ri (replies s) = []" "command_ok command"
    "list_all2 answers (butlast (read_log s)) (sent_log s)"
proof -
  have items: "ci (commands s) = command # ci q" using assms(3) by (simp add: cmds.pop_Some_iff)
  then have "\<not> quiet ci ri s" by (simp add: quiet_def)
  with assms(1) show frame: "frame s = Awaiting"
    by (auto simp: lockstep_def split: frame_pc.splits)
  note inv = assms(1) [unfolded lockstep_def frame, simplified]
  from inv items assms(2) show last: "command = last (read_log s)" and "ci q = []"
    and "ri (replies s) = []"
    by (auto simp: pending_def Let_def split: list.splits)
  from inv show nonempty: "read_log s \<noteq> []"
    and "list_all2 answers (butlast (read_log s)) (sent_log s)" by simp_all
  from inv nonempty last show "command_ok command" by (simp add: list_all_iff)
qed

lemma replying:
  assumes "lockstep ci ri s" "conn s = Replying reply ok failed"
  shows "frame s = Awaiting" "ci (commands s) = []" "ri (replies s) = []"
    "answers (last (read_log s)) reply"
proof -
  have "\<not> quiet ci ri s" using assms(2) by (simp add: quiet_def)
  with assms(1) show frame: "frame s = Awaiting"
    by (auto simp: lockstep_def split: frame_pc.splits)
  from assms(1) frame assms(2) show "ci (commands s) = []" "ri (replies s) = []"
    "answers (last (read_log s)) reply"
    by (auto simp: lockstep_def pending_def Let_def split: list.splits)
qed

lemma lockstep_conn:
  assumes "lockstep ci ri s" "conn_step net cc rc s = Some t"
  shows "lockstep ci ri t"
proof (cases "conn s")
  case Receiving
  show ?thesis
  proof (cases "chan_pop cc (commands s)")
    case None
    with assms Receiving have "frame s = Frame_Done" "t = conn_take net None s"
      by (auto simp: conn_step_def split: if_splits)
    with assms(1) show ?thesis
      by (auto simp: conn_take_def lockstep_def quiet_def split: prod.splits)
  next
    case (Some cq)
    obtain command q where cq: "cq = (command, q)" by (cases cq)
    note now = receiving_command [OF assms(1) Receiving Some [unfolded cq]]
    obtain st calls nxt w where recv:
      "conn_recv net (Some command) (state s) (world s) = (st, calls, nxt, w)"
      by (cases "conn_recv net (Some command) (state s) (world s)")
    from conn_recv_answers [OF this now(6)] assms Receiving Some cq now recv show ?thesis
      by (auto simp: conn_step_def conn_take_def lockstep_def pending_def split: conn_next.splits)
  qed
next
  case (Replying reply ok failed)
  note now = replying [OF assms(1) Replying]
  from assms(2) Replying now(1) obtain q where q: "chan_push rc reply (replies s) = Some q"
    "t = s\<lparr>replies := q, conn := (if ok then Receiving else Conn_Done)\<rparr>"
    by (auto simp: conn_step_def)
  from reps.push_Some_iff [OF q(1)] now q(2) assms(1) show ?thesis
    by (auto simp: lockstep_def pending_def)
qed (use assms(2) in \<open>simp add: conn_step_def\<close>)

lemma lockstep_world [simp]: "lockstep ci ri (s\<lparr>world := w\<rparr>) \<longleftrightarrow> lockstep ci ri s"
  by (cases "frame s") (simp_all add: lockstep_def quiet_def pending_def)

lemma lockstep_step:
  "session_step net cc rc s t \<Longrightarrow> lockstep ci ri s \<Longrightarrow> lockstep ci ri t"
proof (induction rule: session_step.induct)
  case (read s ev)
  then show ?case by (blast intro: lockstep_read)
next
  case (frame_task s t)
  then show ?case by (blast intro: lockstep_frame)
next
  case (conn_task s t)
  then show ?case by (blast intro: lockstep_conn)
qed simp

lemma roomy_frame: "roomy s \<Longrightarrow> frame_step net cc rc s = Some t \<Longrightarrow> roomy t"
  by (auto simp: roomy_def frame_step_def dest: cmds.push_Some_iff reps.pop_Some_iff
      split: frame_pc.splits if_splits option.splits prod.splits sum.splits)

lemma roomy_conn: "roomy s \<Longrightarrow> conn_step net cc rc s = Some t \<Longrightarrow> roomy t"
  by (auto simp: roomy_def conn_step_def conn_take_def dest: reps.push_Some_iff cmds.pop_Some_iff
      split: conn_pc.splits if_splits option.splits prod.splits)

lemma roomy_step: "session_step net cc rc s t \<Longrightarrow> roomy s \<Longrightarrow> roomy t"
proof (induction rule: session_step.induct)
  case (frame_task s t)
  then show ?case by (blast intro: roomy_frame)
next
  case (conn_task s t)
  then show ?case by (blast intro: roomy_conn)
qed (simp_all add: roomy_def frame_read_def)

lemma reachable_lockstep: "reachable net cc rc s \<Longrightarrow> lockstep ci ri s \<and> roomy s"
  by (induction rule: reachable.induct)
     (auto intro: lockstep_init roomy_init lockstep_step roomy_step)

lemma accounts_take:
  assumes "open_accounts (state s) (call_log s)" "\<not> alloc_failed (call_log s)"
  shows "accounts_ok (conn_take net command s)"
proof -
  obtain st calls nxt w where
    recv: "conn_recv net command (state s) (world s) = (st, calls, nxt, w)"
    by (cases "conn_recv net command (state s) (world s)")
  from conn_recv_accounts [OF recv assms] recv show ?thesis
    by (auto simp: accounts_ok_def conn_take_def split: conn_next.splits)
qed

lemma accounts_conn:
  assumes "lockstep ci ri s" "accounts_ok s" "conn_step net cc rc s = Some t"
  shows "accounts_ok t"
proof (cases "conn s")
  case Receiving
  have take: "accounts_ok (conn_take net command (s\<lparr>commands := q\<rparr>))" for command q
    using assms(2) Receiving by (intro accounts_take) (simp_all add: accounts_ok_def)
  from assms(3) Receiving consider
      "t = conn_take net None s" | command q where "t = conn_take net (Some command) (s\<lparr>commands := q\<rparr>)"
    by (auto simp: conn_step_def split: option.splits if_splits)
  then show ?thesis
    using take take [of None "commands s"] by cases simp_all
next
  case (Replying reply ok failed)
  with assms(1) have "frame s = Awaiting" by (rule replying(1))
  with assms(3) Replying obtain q where
    "t = s\<lparr>replies := q, conn := (if ok then Receiving else Conn_Done)\<rparr>"
    by (auto simp: conn_step_def)
  with assms(2) Replying show ?thesis
    by (auto simp: accounts_ok_def open_accounts_def closed_accounts_def option_list_def)
qed (use assms(3) in \<open>simp add: conn_step_def\<close>)

lemma accounts_step:
  "session_step net cc rc s t \<Longrightarrow> lockstep ci ri s \<Longrightarrow> accounts_ok s \<Longrightarrow> accounts_ok t"
proof (induction rule: session_step.induct)
  case (frame_task s t)
  then have "conn t = conn s" "state t = state s" "call_log t = call_log s"
    by (auto simp: frame_step_def split: frame_pc.splits option.splits prod.splits sum.splits if_splits)
  with frame_task show ?case using accounts_ok_cong [of t s] by simp
next
  case (conn_task s t)
  then show ?case by (blast intro: accounts_conn)
next
  case (read s ev)
  then show ?case using accounts_ok_cong [of "frame_read ev s" s] by (simp add: frame_read_def)
next
  case (others s w)
  then show ?case using accounts_ok_cong [of "s\<lparr>world := w\<rparr>" s] by simp
qed

lemma reachable_accounts: "reachable net cc rc s \<Longrightarrow> accounts_ok s"
proof (induction rule: reachable.induct)
  case (start w)
  show ?case
    by (simp add: accounts_ok_def init_session_def open_accounts_new)
next
  case (step s t)
  with reachable_lockstep show ?case by (blast intro: accounts_step)
qed

text \<open>Where no task can move, and what a stall leads to.\<close>

lemma quiet_push:
  assumes "roomy s" "quiet ci ri s"
  shows "\<exists>q. chan_push cc command (commands s) = Some q \<and> ci q = [command] \<and> ck q = 2"
  using cmds.push_free [of "commands s" command] assms by (auto simp: roomy_def quiet_def)

lemma stuck_cases:
  assumes "lockstep ci ri s" "roomy s" "frame s \<noteq> Reading"
    and "frame_step net cc rc s = None" "conn_step net cc rc s = None"
  shows "frame s = Frame_Done \<and> conn s = Conn_Done \<or> stalled ci ri s \<and> bad_flag (last (read_log s))"
proof (cases "frame s")
  case (Sending command)
  with assms(1) have "quiet ci ri s" by (simp add: lockstep_def)
  with quiet_push [OF assms(2), of command] assms(4) Sending show ?thesis
    by (auto simp: frame_step_def split: if_splits)
next
  case Awaiting
  with assms(4) have "ri (replies s) = []" "conn s \<noteq> Conn_Done"
    by (auto simp: frame_step_def reps.pop_None_iff split: option.splits prod.splits sum.splits if_splits)
  moreover from assms(5) have "conn s = Receiving \<longrightarrow> ci (commands s) = []"
    by (auto simp: conn_step_def cmds.pop_None_iff split: option.splits prod.splits)
  moreover have "conn s \<noteq> Replying reply ok failed" for reply ok failed
    using assms(2,5) Awaiting \<open>ri (replies s) = []\<close> reps.push_free [of "replies s" reply]
    by (auto simp: conn_step_def roomy_def)
  ultimately show ?thesis
    using assms(1) Awaiting
    by (cases "conn s") (auto simp: stalled_def lockstep_def pending_def)
next
  case Frame_Done
  with assms(1) have "quiet ci ri s" by (simp add: lockstep_def)
  with assms(5) Frame_Done show ?thesis
    by (auto simp: conn_step_def quiet_def cmds.pop_None_iff split: option.splits prod.splits)
qed (use assms(3) in simp)

lemma stalled_step:
  "session_step net cc rc s t \<Longrightarrow> stalled ci ri s \<Longrightarrow>
     stalled ci ri t \<and> call_log t = call_log s \<and> state t = state s"
proof (induction rule: session_step.induct)
  case (frame_task s t)
  then show ?case
    using reps.pop_None_iff [of "replies s"] by (simp add: frame_step_def stalled_def)
next
  case (conn_task s t)
  then show ?case
    using cmds.pop_None_iff [of "commands s"] by (simp add: conn_step_def stalled_def)
qed (simp_all add: stalled_def)

lemma stalled_forever:
  "(session_step net cc rc)\<^sup>*\<^sup>* s t \<Longrightarrow> stalled ci ri s \<Longrightarrow>
     stalled ci ri t \<and> call_log t = call_log s \<and> state t = state s"
proof (induction rule: rtranclp_induct)
  case (step t u)
  with stalled_step [OF step.hyps(2)] show ?case by auto
qed simp

lemma bad_flag_stalls:
  assumes "lockstep ci ri s" "roomy s" "frame s = Reading" "conn s = Receiving"
    and "command_ok command" "bad_flag command"
  shows "\<exists>t. (session_step net cc rc)\<^sup>*\<^sup>* s t \<and> stalled ci ri t
      \<and> call_log t = call_log s \<and> state t = state s"
proof -
  let ?ev = "Next (Some (Inr command))"
  from assms(1,3) have quiet: "quiet ci ri s" by (simp add: lockstep_def)
  from quiet_push [OF assms(2) quiet] obtain q
    where q: "chan_push cc command (commands s) = Some q" "ci q = [command]" by blast
  from cmds.pop_first [OF q(2)] obtain q'
    where q': "chan_pop cc q = Some (command, q')" "ci q' = []" by blast
  define s1 where "s1 = frame_read ?ev s"
  define s2 where "s2 = s1\<lparr>commands := q, frame := Awaiting\<rparr>"
  define s3 where "s3 = conn_take net (Some command) (s2\<lparr>commands := q'\<rparr>)"
  have "session_step net cc rc s s1"
    unfolding s1_def using assms(3,5) by (intro session_step.read) simp_all
  moreover have "session_step net cc rc s1 s2"
    using q(1) assms(4)
    by (intro session_step.frame_task) (simp add: s1_def s2_def frame_read_def frame_step_def)
  moreover have "session_step net cc rc s2 s3"
    using q' assms(4)
    by (intro session_step.conn_task) (simp add: s1_def s2_def s3_def frame_read_def conn_step_def)
  ultimately have "(session_step net cc rc)\<^sup>*\<^sup>* s s3"
    by (blast intro: r_into_rtranclp rtranclp_trans)
  moreover have "stalled ci ri s3 \<and> call_log s3 = call_log s \<and> state s3 = state s"
    using conn_recv_bad_flag [OF assms(6), of net "state s" "world s"] q'(2) quiet
    by (simp add: s1_def s2_def s3_def frame_read_def conn_take_def stalled_def quiet_def)
  ultimately show ?thesis by blast
qed

end

end
