(* ===== verification/Session.thy ===== *)
theory Session
  imports Connection
begin

text \<open>
  The life of a session: which task may move, how many steps the tasks make between two reads,
  an executable scheduler for the pair of tasks, and the sequential server the pair implements.
  The lemmas are proved for every pair of channels with the laws of \<open>Channel\<close>, inside the
  locale \<open>session_channels\<close>; the interpretation on bounded lists makes them facts about a
  session that evaluates.
\<close>

section \<open>Task steps\<close>

definition task_step ::
  "('w, 'v) net \<Rightarrow> (FtlCommand, 'q) mpsc \<Rightarrow> (FrameCommand, 'r) mpsc
    \<Rightarrow> ('w, 'q, 'r) session \<Rightarrow> ('w, 'q, 'r) session \<Rightarrow> bool" where
  "task_step net cc rc s t \<longleftrightarrow> frame_step net cc rc s = Some t \<or> conn_step net cc rc s = Some t"

fun frame_weight :: "frame_pc \<Rightarrow> nat" where
  "frame_weight (Sending command) = 5"
| "frame_weight Awaiting = 1"
| "frame_weight _ = 0"

fun conn_weight :: "conn_pc \<Rightarrow> nat" where
  "conn_weight Receiving = 1"
| "conn_weight (Replying reply ok failed) = 3"
| "conn_weight Conn_Done = 0"

text \<open>The work left before the tasks come to rest.\<close>

definition work ::
  "('q \<Rightarrow> FtlCommand list) \<Rightarrow> ('r \<Rightarrow> FrameCommand list) \<Rightarrow> ('w, 'q, 'r) session \<Rightarrow> nat" where
  "work ci ri s =
     frame_weight (frame s) + conn_weight (conn s)
     + 3 * length (ci (commands s)) + length (ri (replies s))"

text \<open>
  A schedule: let the frame task move if it can, the command task otherwise, until neither
  can. Six steps are always enough (\<open>work_bound\<close>).
\<close>

fun run_tasks ::
  "nat \<Rightarrow> ('w, 'v) net \<Rightarrow> (FtlCommand, 'q) mpsc \<Rightarrow> (FrameCommand, 'r) mpsc
    \<Rightarrow> ('w, 'q, 'r) session \<Rightarrow> ('w, 'q, 'r) session" where
  "run_tasks 0 net cc rc s = s"
| "run_tasks (Suc n) net cc rc s =
     (case frame_step net cc rc s of
        Some t \<Rightarrow> run_tasks n net cc rc t
      | None \<Rightarrow> (case conn_step net cc rc s of Some t \<Rightarrow> run_tasks n net cc rc t | None \<Rightarrow> s))"

definition at_rest ::
  "('w, 'v) net \<Rightarrow> (FtlCommand, 'q) mpsc \<Rightarrow> (FrameCommand, 'r) mpsc
    \<Rightarrow> ('w, 'q, 'r) session \<Rightarrow> bool" where
  "at_rest net cc rc s \<longleftrightarrow> frame_step net cc rc s = None \<and> conn_step net cc rc s = None"

lemma reachable_task:
  "reachable net cc rc s \<Longrightarrow> frame_step net cc rc s = Some t \<Longrightarrow> reachable net cc rc t"
  "reachable net cc rc s \<Longrightarrow> conn_step net cc rc s = Some t \<Longrightarrow> reachable net cc rc t"
  by (blast intro: reachable.step session_step.intros)+

lemma run_tasks_reachable: "reachable net cc rc s \<Longrightarrow> reachable net cc rc (run_tasks n net cc rc s)"
  by (induction n net cc rc s rule: run_tasks.induct)
     (auto dest: reachable_task split: option.split)

lemma run_tasks_steps: "(session_step net cc rc)\<^sup>*\<^sup>* s (run_tasks n net cc rc s)"
proof (induction n arbitrary: s)
  case (Suc n)
  then show ?case
    by (auto intro: converse_rtranclp_into_rtranclp session_step.intros split: option.split)
qed simp

lemma run_tasks_rest [simp]: "at_rest net cc rc s \<Longrightarrow> run_tasks n net cc rc s = s"
  by (cases n) (simp_all add: at_rest_def)

text \<open>One event, and whatever the two tasks do with it.\<close>

definition serve_event ::
  "('w, 'v) net \<Rightarrow> (FtlCommand, 'q) mpsc \<Rightarrow> (FrameCommand, 'r) mpsc
    \<Rightarrow> frame_event \<Rightarrow> ('w, 'q, 'r) session \<Rightarrow> ('w, 'q, 'r) session" where
  "serve_event net cc rc ev s =
     (if frame s = Reading then run_tasks 6 net cc rc (frame_read ev s) else s)"

definition serve ::
  "('w, 'v) net \<Rightarrow> (FtlCommand, 'q) mpsc \<Rightarrow> (FrameCommand, 'r) mpsc
    \<Rightarrow> frame_event list \<Rightarrow> 'w \<Rightarrow> ('w, 'q, 'r) session" where
  "serve net cc rc evs w = fold (serve_event net cc rc) evs (init_session cc rc w)"

lemma serve_event_reachable:
  "reachable net cc rc s \<Longrightarrow> event_ok ev \<Longrightarrow> reachable net cc rc (serve_event net cc rc ev s)"
  unfolding serve_event_def
  by (auto simp del: event_ok.simps intro!: run_tasks_reachable intro: reachable.step session_step.read)

lemma serve_reachable_from:
  "reachable net cc rc s \<Longrightarrow> list_all event_ok evs \<Longrightarrow>
     reachable net cc rc (fold (serve_event net cc rc) evs s)"
  by (induction evs arbitrary: s) (simp_all add: serve_event_reachable)

lemma serve_reachable: "list_all event_ok evs \<Longrightarrow> reachable net cc rc (serve net cc rc evs w)"
  by (simp add: serve_def serve_reachable_from reachable.start)

context session_channels
begin

lemma conn_take_weight: "conn_weight (conn (conn_take net command s)) \<le> 3"
  by (auto simp: conn_take_def split: prod.split conn_next.split)

lemma conn_take_frame [simp]:
  "frame (conn_take net command s) = frame s" "commands (conn_take net command s) = commands s"
  "replies (conn_take net command s) = replies s"
  by (auto simp: conn_take_def split: prod.split)

lemma frame_step_work:
  assumes "frame_step net cc rc s = Some t"
  shows "work ci ri t < work ci ri s"
proof (cases "frame s")
  case (Sending command)
  with assms show ?thesis
    by (auto simp: frame_step_def work_def dest: cmds.push_Some_iff split: if_splits)
next
  case Awaiting
  with assms show ?thesis
    by (auto simp: frame_step_def work_def dest: reps.pop_Some_iff
        split: option.splits prod.splits sum.splits if_splits)
qed (use assms in \<open>simp_all add: frame_step_def\<close>)

lemma conn_step_work:
  assumes "conn_step net cc rc s = Some t"
  shows "work ci ri t < work ci ri s"
proof (cases "conn s")
  case Receiving
  show ?thesis
  proof (cases "chan_pop cc (commands s)")
    case None
    with assms Receiving have "t = conn_take net None s"
      by (auto simp: conn_step_def split: if_splits)
    moreover have "conn (conn_take net None s) = Conn_Done"
      by (auto simp: conn_take_def split: prod.split)
    ultimately show ?thesis using Receiving by (simp add: work_def)
  next
    case (Some cq)
    obtain command q where cq: "cq = (command, q)" by (cases cq)
    with assms Receiving Some have t: "t = conn_take net (Some command) (s\<lparr>commands := q\<rparr>)"
      by (simp add: conn_step_def)
    from Some cq have "ci (commands s) = command # ci q" by (simp add: cmds.pop_Some_iff)
    with t Receiving conn_take_weight [of net "Some command" "s\<lparr>commands := q\<rparr>"] show ?thesis
      by (simp add: work_def)
  qed
next
  case (Replying reply ok failed)
  with assms show ?thesis
    by (auto simp: conn_step_def work_def dest: reps.push_Some_iff split: if_splits)
qed (use assms in \<open>simp add: conn_step_def\<close>)

lemma task_step_work: "task_step net cc rc s t \<Longrightarrow> work ci ri t < work ci ri s"
  by (auto simp: task_step_def intro: frame_step_work conn_step_work)

lemma task_steps_work: "(task_step net cc rc ^^ n) s t \<Longrightarrow> n + work ci ri t \<le> work ci ri s"
proof (induction n arbitrary: t)
  case (Suc n)
  then obtain u where "(task_step net cc rc ^^ n) s u" "task_step net cc rc u t" by auto
  with Suc.IH [of u] task_step_work [of net u t] show ?case by simp
qed simp

lemma work_bound: "lockstep ci ri s \<Longrightarrow> work ci ri s \<le> 6"
  by (cases "frame s"; cases "conn s")
     (auto simp: lockstep_def quiet_def pending_def work_def Let_def split: list.splits)

lemma run_tasks_at_rest: "work ci ri s \<le> n \<Longrightarrow> at_rest net cc rc (run_tasks n net cc rc s)"
proof (induction n arbitrary: s)
  case 0
  then show ?case
    using frame_step_work [of net s] conn_step_work [of net s]
    by (cases "frame_step net cc rc s"; cases "conn_step net cc rc s") (auto simp: at_rest_def)
next
  case (Suc n)
  show ?case
  proof (cases "frame_step net cc rc s")
    case (Some t)
    with Suc.IH [of t] frame_step_work [OF Some] Suc.prems show ?thesis by simp
  next
    case frame: None
    show ?thesis
    proof (cases "conn_step net cc rc s")
      case (Some t)
      with Suc.IH [of t] conn_step_work [OF Some] Suc.prems frame show ?thesis by simp
    qed (simp add: frame at_rest_def)
  qed
qed

text \<open>The tasks take turns: in no session can both move.\<close>

lemma turns:
  assumes "lockstep ci ri s" "frame_step net cc rc s = Some t"
  shows "conn_step net cc rc s = None"
proof (cases "conn s")
  case Receiving
  have "ci (commands s) = [] \<and> frame s \<noteq> Frame_Done"
  proof (cases "frame s")
    case (Sending command)
    with assms(1) show ?thesis by (simp add: lockstep_def quiet_def)
  next
    case Awaiting
    with assms Receiving show ?thesis
      by (auto simp: lockstep_def pending_def Let_def frame_step_def reps.pop_empty
          split: list.splits)
  qed (use assms(2) in \<open>simp_all add: frame_step_def\<close>)
  with Receiving show ?thesis by (simp add: conn_step_def cmds.pop_empty)
next
  case (Replying reply ok failed)
  from replying [OF assms(1) Replying] Replying assms(2) show ?thesis
    by (simp add: frame_step_def reps.pop_empty)
qed (simp add: conn_step_def)

lemma run_tasks_more:
  "work ci ri s \<le> m \<Longrightarrow> m \<le> n \<Longrightarrow> run_tasks n net cc rc s = run_tasks m net cc rc s"
proof (induction m arbitrary: n s)
  case 0
  then show ?case
    using run_tasks_at_rest [of s 0 net] by simp
next
  case (Suc m)
  from Suc.prems(2) obtain k where n: "n = Suc k" "m \<le> k" by (cases n) auto
  show ?case
  proof (cases "frame_step net cc rc s")
    case (Some t)
    with Suc.IH [of t k] frame_step_work [OF Some] Suc.prems n show ?thesis by simp
  next
    case frame: None
    show ?thesis
    proof (cases "conn_step net cc rc s")
      case (Some t)
      with Suc.IH [of t k] conn_step_work [OF Some] Suc.prems n frame show ?thesis by simp
    qed (simp add: n frame)
  qed
qed

text \<open>Running the tasks, a step at a time.\<close>

lemma settle_frame:
  assumes "lockstep ci ri s" "frame_step net cc rc s = Some t"
  shows "run_tasks 6 net cc rc s = run_tasks 6 net cc rc t" and "lockstep ci ri t"
proof -
  have "run_tasks (Suc 5) net cc rc s = run_tasks 5 net cc rc t"
    unfolding run_tasks.simps assms(2) option.case ..
  moreover from frame_step_work [OF assms(2)] work_bound [OF assms(1)] have "work ci ri t \<le> 5"
    by simp
  ultimately show "run_tasks 6 net cc rc s = run_tasks 6 net cc rc t"
    using run_tasks_more [of t 5 6 net] by simp
  from assms show "lockstep ci ri t" by (rule lockstep_frame)
qed

lemma settle_conn:
  assumes "lockstep ci ri s" "conn_step net cc rc s = Some t"
  shows "run_tasks 6 net cc rc s = run_tasks 6 net cc rc t" and "lockstep ci ri t"
proof -
  from turns [OF assms(1), of net] assms(2) have "frame_step net cc rc s = None"
    by (cases "frame_step net cc rc s") auto
  then have "run_tasks (Suc 5) net cc rc s = run_tasks 5 net cc rc t"
    unfolding run_tasks.simps assms(2) by simp
  moreover from conn_step_work [OF assms(2)] work_bound [OF assms(1)] have "work ci ri t \<le> 5"
    by simp
  ultimately show "run_tasks 6 net cc rc s = run_tasks 6 net cc rc t"
    using run_tasks_more [of t 5 6 net] by simp
  from assms show "lockstep ci ri t" by (rule lockstep_conn)
qed

text \<open>So the order in which the scheduler picks the tasks makes no difference.\<close>

lemma run_tasks_unique:
  assumes "(task_step net cc rc)\<^sup>*\<^sup>* s t" "lockstep ci ri s"
  shows "run_tasks 6 net cc rc s = run_tasks 6 net cc rc t"
  using assms
proof (induction rule: converse_rtranclp_induct)
  case (step s u)
  from step.hyps(1) step.prems
  have "run_tasks 6 net cc rc s = run_tasks 6 net cc rc u \<and> lockstep ci ri u"
    unfolding task_step_def using settle_frame [of s net u] settle_conn [of s net u] by blast
  with step.IH show ?case by simp
qed simp

end

interpretation list_session: session_channels list_channel snd fst list_channel snd fst
  by unfold_locales

end
