(* ===== verification/Sequential.thy ===== *)
theory Sequential
  imports Session
begin

text \<open>
  The sequential server: what one connection promises, without tasks and channels. It handles
  one socket event at a time, to the end. The two tasks of a session, run until they rest after
  every event, implement it, for every network and every channel with the laws of \<open>Channel\<close>.
\<close>

section \<open>The specification\<close>

text \<open>
  Between two events a connection is waiting for the next command, or it refuses service (its
  command task has returned, its socket is still open), or it is closed, or it hangs.
\<close>

datatype phase = Waiting | Refusing | Closed | Hung

record 'w server =
  srv_phase :: phase
  srv_state :: ConnectionState
  srv_read :: "FtlCommand list"
  srv_sent :: "FrameCommand list"
  srv_calls :: "service_call list"
  srv_world :: 'w

definition new_server :: "'w \<Rightarrow> 'w server" where
  "new_server w =
     \<lparr> srv_phase = Waiting, srv_state = new_state, srv_read = [], srv_sent = [],
       srv_calls = [], srv_world = w \<rparr>"

text \<open>The socket is gone: the session is cleaned up.\<close>

definition srv_close :: "('w, 'v) net \<Rightarrow> 'w server \<Rightarrow> 'w server" where
  "srv_close net sv =
     (case end_session net (srv_state sv) (srv_world sv) of
        (calls, w) \<Rightarrow>
          sv\<lparr>srv_phase := Closed, srv_calls := srv_calls sv @ calls, srv_world := w\<rparr>)"

text \<open>A reply is written; \<open>ok\<close> tells whether the command task goes on.\<close>

definition srv_reply :: "('w, 'v) net \<Rightarrow> FrameCommand \<Rightarrow> bool \<Rightarrow> 'w server \<Rightarrow> 'w server" where
  "srv_reply net reply ok sv =
     (case handle_frame_command net (Some reply) (srv_world sv) of
        (Inr _, w) \<Rightarrow>
          sv\<lparr>srv_phase := (if ok then Waiting else Refusing),
             srv_sent := srv_sent sv @ [reply], srv_world := w\<rparr>
      | (Inl e, w) \<Rightarrow>
          (if ok then srv_close net (sv\<lparr>srv_world := w\<rparr>)
           else sv\<lparr>srv_phase := Closed, srv_world := w\<rparr>))"

definition srv_command :: "('w, 'v) net \<Rightarrow> FtlCommand \<Rightarrow> 'w server \<Rightarrow> 'w server" where
  "srv_command net command sv =
     (case conn_recv net (Some command) (srv_state sv) (srv_world sv) of
        (st, calls, next, w) \<Rightarrow>
          (let sv = sv\<lparr>srv_state := st, srv_calls := srv_calls sv @ calls, srv_world := w\<rparr> in
           case next of
             Return \<Rightarrow> sv\<lparr>srv_phase := Closed\<rparr>
           | Loop \<Rightarrow> sv\<lparr>srv_phase := Hung\<rparr>
           | Reply reply ok failed \<Rightarrow> srv_reply net reply ok sv))"

definition srv_event :: "('w, 'v) net \<Rightarrow> frame_event \<Rightarrow> 'w server \<Rightarrow> 'w server" where
  "srv_event net ev sv =
     (let read = sv\<lparr>srv_read := srv_read sv @ event_commands ev\<rparr> in
      case srv_phase sv of
        Waiting \<Rightarrow>
          (case ev of
             Next (Some (Inr command)) \<Rightarrow> srv_command net command read
           | _ \<Rightarrow> srv_close net read)
      | Refusing \<Rightarrow> read\<lparr>srv_phase := Closed\<rparr>
      | _ \<Rightarrow> sv)"

section \<open>The abstraction\<close>

definition phase_of :: "('w, 'q, 'r) session \<Rightarrow> phase" where
  "phase_of s =
     (case (frame s, conn s) of
        (Reading, Receiving) \<Rightarrow> Waiting
      | (Reading, _) \<Rightarrow> Refusing
      | (Frame_Done, _) \<Rightarrow> Closed
      | _ \<Rightarrow> Hung)"

text \<open>What the abstraction keeps of a session: everything but the tasks and the channels.\<close>

definition server_of :: "('w, 'q, 'r) session \<Rightarrow> 'w server" where
  "server_of s =
     \<lparr> srv_phase = phase_of s, srv_state = state s, srv_read = read_log s,
       srv_sent = sent_log s, srv_calls = call_log s, srv_world = world s \<rparr>"

lemma server_of_init: "server_of (init_session cc rc w) = new_server w"
  by (simp add: server_of_def init_session_def new_server_def phase_of_def)

section \<open>Refinement\<close>

text \<open>A session between two events: reading, or with both tasks unable to move.\<close>

definition resting ::
  "('q \<Rightarrow> FtlCommand list) \<Rightarrow> ('r \<Rightarrow> FrameCommand list) \<Rightarrow> ('w, 'q, 'r) session \<Rightarrow> bool" where
  "resting ci ri s \<longleftrightarrow>
     quiet ci ri s \<and> (frame s = Reading \<or> frame s = Frame_Done \<and> conn s = Conn_Done
       \<or> frame s = Awaiting \<and> conn s = Receiving)"

context session_channels
begin

lemma resting_at_rest: "resting ci ri s \<Longrightarrow> at_rest net cc rc s"
  by (auto simp: resting_def quiet_def at_rest_def frame_step_def conn_step_def
      cmds.pop_empty reps.pop_empty)

text \<open>Coming to rest as a given state of the sequential server.\<close>

definition settles :: "('w, 'v) net \<Rightarrow> ('w, 'q, 'r) session \<Rightarrow> 'w server \<Rightarrow> bool" where
  "settles net s sv \<longleftrightarrow>
     server_of (run_tasks 6 net cc rc s) = sv \<and> resting ci ri (run_tasks 6 net cc rc s)"

lemma settles_rest: "resting ci ri s \<Longrightarrow> settles net s (server_of s)"
  by (simp add: settles_def resting_at_rest)

lemma settles_frame:
  "lockstep ci ri s \<Longrightarrow> frame_step net cc rc s = Some t \<Longrightarrow>
     (lockstep ci ri t \<Longrightarrow> settles net t sv) \<Longrightarrow> settles net s sv"
  using settle_frame [of s net t] by (simp add: settles_def)

lemma settles_conn:
  "lockstep ci ri s \<Longrightarrow> conn_step net cc rc s = Some t \<Longrightarrow>
     (lockstep ci ri t \<Longrightarrow> settles net t sv) \<Longrightarrow> settles net s sv"
  using settle_conn [of s net t] by (simp add: settles_def)

lemma settles_closed:
  assumes "lockstep ci ri s" "frame s = Frame_Done"
  shows "settles net s (if conn s = Receiving then srv_close net (server_of s) else server_of s)"
proof -
  from assms have quiet: "quiet ci ri s" by (simp add: lockstep_def)
  show ?thesis
  proof (cases "conn s")
    case Receiving
    obtain calls w where closed: "end_session net (state s) (world s) = (calls, w)"
      by (cases "end_session net (state s) (world s)")
    let ?t = "s\<lparr>state := state s, world := w, call_log := call_log s @ calls, conn := Conn_Done\<rparr>"
    have "resting ci ri ?t" using quiet assms(2) by (simp add: resting_def quiet_def)
    then have "settles net ?t (server_of ?t)" by (rule settles_rest)
    moreover have "conn_step net cc rc s = Some ?t"
      using quiet assms(2) Receiving closed
      by (simp add: conn_step_def conn_take_def quiet_def cmds.pop_empty)
    moreover have "server_of ?t = srv_close net (server_of s)"
      using closed assms(2) by (simp add: server_of_def srv_close_def phase_of_def)
    ultimately show ?thesis using settles_conn [OF assms(1)] Receiving by simp
  next
    case Conn_Done
    with quiet assms(2) have "resting ci ri s" by (simp add: resting_def)
    with Conn_Done show ?thesis by (simp add: settles_rest)
  qed (use quiet in \<open>simp add: quiet_def\<close>)
qed

lemma settles_reply:
  assumes "lockstep ci ri s" "roomy s" "conn s = Replying reply ok failed"
  shows "settles net s (srv_reply net reply ok (server_of s))"
proof -
  note now = replying [OF assms(1,3)]
  from reps.push_free [of "replies s" reply] now(3) assms(2) obtain q
    where q: "chan_push rc reply (replies s) = Some q" "ri q = [reply]"
    by (auto simp: roomy_def)
  from reps.pop_first [OF q(2)] obtain q'
    where q': "chan_pop rc q = Some (reply, q')" "ri q' = []" by blast
  let ?c = "if ok then Receiving else Conn_Done"
  let ?t = "s\<lparr>replies := q, conn := ?c\<rparr>"
  have step: "conn_step net cc rc s = Some ?t"
    using now(1) assms(3) q(1) by (simp add: conn_step_def)
  obtain result w where sent: "handle_frame_command net (Some reply) (world s) = (result, w)"
    by (cases "handle_frame_command net (Some reply) (world s)")
  have "settles net ?t (srv_reply net reply ok (server_of s))" if t: "lockstep ci ri ?t"
  proof (cases result)
    case (Inl e)
    let ?u = "s\<lparr>replies := q', conn := ?c, world := w, frame := Frame_Done\<rparr>"
    have "frame_step net cc rc ?t = Some ?u"
      using now(1) q'(1) sent Inl by (simp add: frame_step_def)
    moreover have "settles net ?u (srv_reply net reply ok (server_of s))" if "lockstep ci ri ?u"
      using settles_closed [OF that, of net] sent Inl
      by (cases ok; cases "end_session net (state s) w")
         (simp_all add: server_of_def srv_reply_def srv_close_def phase_of_def)
    ultimately show ?thesis using settles_frame [OF t] by blast
  next
    case (Inr u)
    let ?u = "s\<lparr>replies := q', conn := ?c, world := w, frame := Reading,
      sent_log := sent_log s @ [reply]\<rparr>"
    have "frame_step net cc rc ?t = Some ?u"
      using now(1) q'(1) sent Inr by (simp add: frame_step_def)
    moreover have "settles net ?u (server_of ?u)"
      using now(2) q'(2) by (intro settles_rest) (simp add: resting_def quiet_def)
    moreover have "server_of ?u = srv_reply net reply ok (server_of s)"
      using sent Inr by (simp add: server_of_def srv_reply_def phase_of_def)
    ultimately show ?thesis by (metis settles_frame [OF t])
  qed
  then show ?thesis using settles_conn [OF assms(1) step] by blast
qed

lemma settles_command:
  assumes "lockstep ci ri s" "roomy s" "frame s = Awaiting" "conn s = Receiving"
    and "ci (commands s) = [command]"
  shows "settles net s (srv_command net command (server_of s))"
proof -
  from cmds.pop_first [OF assms(5)] obtain q
    where q: "chan_pop cc (commands s) = Some (command, q)" "ci q = []" "ck q = ck (commands s)"
    by blast
  note now = receiving_command [OF assms(1,4) q(1)]
  obtain st calls nxt w where recv:
    "conn_recv net (Some command) (state s) (world s) = (st, calls, nxt, w)"
    by (cases "conn_recv net (Some command) (state s) (world s)")
  define t where "t = s\<lparr>commands := q, state := st, world := w, call_log := call_log s @ calls,
    conn := (case nxt of Return \<Rightarrow> Conn_Done | Reply r ok failed \<Rightarrow> Replying r ok failed
                       | Loop \<Rightarrow> Receiving)\<rparr>"
  have step: "conn_step net cc rc s = Some t"
    using q(1) assms(4) recv by (simp add: conn_step_def conn_take_def t_def)
  have t: "frame t = Awaiting" "ci (commands t) = []" "ri (replies t) = []" "roomy t"
    using assms(2,3) now(5) q(2,3) by (simp_all add: t_def roomy_def)
  have "settles net t (srv_command net command (server_of s))" if lock: "lockstep ci ri t"
  proof (cases nxt)
    case Return
    let ?u = "t\<lparr>frame := Frame_Done\<rparr>"
    have "frame_step net cc rc t = Some ?u"
      using Return t reps.pop_empty [of "replies t"] by (simp add: frame_step_def t_def)
    moreover have "settles net ?u (server_of ?u)"
      using Return t by (intro settles_rest) (simp add: resting_def quiet_def t_def)
    moreover have "server_of ?u = srv_command net command (server_of s)"
      using Return recv by (simp add: server_of_def srv_command_def phase_of_def t_def)
    ultimately show ?thesis using settles_frame [OF lock] by simp
  next
    case (Reply reply ok failed)
    then have "conn t = Replying reply ok failed" by (simp add: t_def)
    then have "settles net t (srv_reply net reply ok (server_of t))"
      by (rule settles_reply [OF lock t(4)])
    moreover have "srv_reply net reply ok (server_of t) = srv_command net command (server_of s)"
      using Reply recv
      by (cases "handle_frame_command net (Some reply) w" rule: prod.exhaust; cases "end_session net st w")
         (auto simp: server_of_def srv_command_def srv_reply_def srv_close_def t_def
            split: sum.split prod.split)
    ultimately show ?thesis by simp
  next
    case Loop
    have "settles net t (server_of t)"
      using Loop t by (intro settles_rest) (simp add: resting_def quiet_def t_def)
    moreover have "server_of t = srv_command net command (server_of s)"
      using Loop recv assms(3) by (simp add: server_of_def srv_command_def phase_of_def t_def)
    ultimately show ?thesis by simp
  qed
  then show ?thesis using settles_conn [OF assms(1) step] by blast
qed

lemma settles_sending:
  assumes "lockstep ci ri s" "roomy s" "frame s = Sending command" "conn s = Receiving"
  shows "settles net s (srv_command net command (server_of s))"
proof -
  from assms(1,3) have "quiet ci ri s" by (simp add: lockstep_def)
  from quiet_push [OF assms(2) this] obtain q
    where q: "chan_push cc command (commands s) = Some q" "ci q = [command]" "ck q = 2"
    by blast
  let ?t = "s\<lparr>commands := q, frame := Awaiting\<rparr>"
  have step: "frame_step net cc rc s = Some ?t"
    using assms(3,4) q(1) by (simp add: frame_step_def)
  have "settles net ?t (srv_command net command (server_of s))" if t: "lockstep ci ri ?t"
  proof -
    have "settles net ?t (srv_command net command (server_of ?t))"
      using assms(2,4) q(2,3) by (intro settles_command [OF t]) (simp_all add: roomy_def)
    moreover have "srv_command net command (server_of ?t) = srv_command net command (server_of s)"
      by (auto simp: server_of_def srv_command_def srv_reply_def srv_close_def Let_def
          split: prod.split sum.split conn_next.split)
    ultimately show ?thesis by simp
  qed
  with settles_frame [OF assms(1) step] show ?thesis by blast
qed

text \<open>One socket event.\<close>

lemma settles_event:
  assumes "lockstep ci ri s" "roomy s" "frame s = Reading" "event_ok ev"
  shows "settles net (frame_read ev s) (srv_event net ev (server_of s))"
proof -
  let ?s = "frame_read ev s"
  from assms have lock: "lockstep ci ri ?s" by (simp add: lockstep_read)
  from assms(1,3) have "quiet ci ri s" by (simp add: lockstep_def)
  then have conn: "conn s = Receiving \<or> conn s = Conn_Done" by (simp add: quiet_def)
  show ?thesis
  proof (cases "frame ?s = Frame_Done")
    case True
    from settles_closed [OF lock True, of net] conn True assms(3) show ?thesis
      by (cases ev rule: frame_next.cases)
         (auto simp: frame_read_def server_of_def srv_event_def srv_close_def phase_of_def
            split: prod.splits)
  next
    case False
    then obtain command where ev: "ev = Next (Some (Inr command))"
      by (cases ev rule: frame_next.cases) (auto simp: frame_read_def)
    then have sending: "frame ?s = Sending command" by (simp add: frame_read_def)
    show ?thesis
    proof (cases "conn s = Receiving")
      case True
      have "roomy ?s" using assms(2) by (simp add: roomy_def frame_read_def)
      with settles_sending [OF lock _ sending, of net] True
      have "settles net ?s (srv_command net command (server_of ?s))" by (simp add: frame_read_def)
      moreover have "srv_command net command (server_of ?s) = srv_event net ev (server_of s)"
        using True assms(3) ev
        by (auto simp: frame_read_def server_of_def srv_event_def srv_command_def srv_reply_def
            srv_close_def phase_of_def Let_def split: prod.split sum.split conn_next.split)
      ultimately show ?thesis by simp
    next
      case False
      with conn have gone: "conn s = Conn_Done" by simp
      let ?t = "?s\<lparr>frame := Frame_Done\<rparr>"
      have "frame_step net cc rc ?s = Some ?t"
        using sending gone by (simp add: frame_step_def frame_read_def)
      moreover have "settles net ?t (server_of ?t)"
        using \<open>quiet ci ri s\<close> gone
        by (intro settles_rest) (simp add: resting_def quiet_def frame_read_def)
      moreover have "server_of ?t = srv_event net ev (server_of s)"
        using gone assms(3) ev by (simp add: frame_read_def server_of_def srv_event_def phase_of_def)
      ultimately show ?thesis by (metis settles_frame [OF lock])
    qed
  qed
qed

lemma serve_event_refines:
  assumes "reachable net cc rc s" "resting ci ri s" "event_ok ev"
  shows "server_of (serve_event net cc rc ev s) = srv_event net ev (server_of s)
    \<and> resting ci ri (serve_event net cc rc ev s)"
proof (cases "frame s = Reading")
  case True
  with settles_event [of s ev net] assms reachable_lockstep [OF assms(1)] show ?thesis
    by (simp add: serve_event_def settles_def)
next
  case False
  with assms(2) show ?thesis
    by (auto simp: serve_event_def resting_def server_of_def srv_event_def phase_of_def)
qed

lemma serve_refines_from:
  assumes "reachable net cc rc s" "resting ci ri s" "list_all event_ok evs"
  shows "server_of (fold (serve_event net cc rc) evs s) = fold (srv_event net) evs (server_of s)
    \<and> resting ci ri (fold (serve_event net cc rc) evs s)"
  using assms
proof (induction evs arbitrary: s)
  case (Cons ev evs)
  with Cons.IH [of "serve_event net cc rc ev s"] serve_event_refines [of net s ev]
    serve_event_reachable [of net cc rc s ev]
  show ?case by simp
qed simp

lemma serve_refines_server:
  assumes "list_all event_ok evs"
  shows "server_of (serve net cc rc evs w) = fold (srv_event net) evs (new_server w)"
    and "resting ci ri (serve net cc rc evs w)"
proof -
  have "resting ci ri (init_session cc rc w)"
    by (simp add: resting_def quiet_def init_session_def cmds.items_new reps.items_new)
  from serve_refines_from [OF reachable.start this assms, of net]
  show "server_of (serve net cc rc evs w) = fold (srv_event net) evs (new_server w)"
    and "resting ci ri (serve net cc rc evs w)"
    by (simp_all add: serve_def server_of_init)
qed

end

end
