(* ===== verification/Guarantees.thy ===== *)
theory Guarantees
  imports Sequential
begin

text \<open>
  What a connection guarantees, over every reachable session and every network: the properties
  of the pair of tasks in \<open>Connection\<close>, from the invariants proved there and the scheduler of
  \<open>Session\<close>. The hypothesis \<open>session_channels\<close> is the documented contract of the two tokio
  channels; the witnesses discharge it for bounded lists.
\<close>

section \<open>A session to evaluate\<close>

definition commands_read :: "FtlCommand list \<Rightarrow> frame_event list" where
  "commands_read cs = map (\<lambda>c. Next (Some (Inr c))) cs"

abbreviation demo :: "FtlCommand list
    \<Rightarrow> (nat, nat \<times> FtlCommand list, nat \<times> FrameCommand list) session" where
  "demo cs \<equiv> serve counting_net list_channel list_channel (commands_read cs) 0"

lemma commands_read_ok: "list_all command_ok cs \<Longrightarrow> list_all event_ok (commands_read cs)"
  by (simp add: commands_read_def list_all_iff)

lemma demo_reachable:
  "list_all command_ok cs \<Longrightarrow> reachable counting_net list_channel list_channel (demo cs)"
  by (simp add: serve_reachable commands_read_ok)

lemma demo_server:
  "list_all command_ok cs \<Longrightarrow>
     server_of (demo cs) = fold (srv_event counting_net) (commands_read cs) (new_server 0)"
  by (simp add: list_session.serve_refines_server commands_read_ok)

lemma demo_resting: "list_all command_ok cs \<Longrightarrow> resting snd snd (demo cs)"
  by (simp add: list_session.serve_refines_server commands_read_ok)

lemma send_all_counting [simp]: "send_all counting_net items w = (Inr (), w)"
  by (induction items arbitrary: w) (simp_all add: counting_net_def)

lemma write_loop_counting [simp]: "write_loop counting_net d w = (Inr (), w)"
  using write_loop_rev [of counting_net "rev d" w] by simp

lemmas server_eval = srv_event_def srv_command_def srv_reply_def srv_close_def new_server_def
  Let_def commands_read_def end_session_def ensure_port_def

text \<open>A stream from its connect to its disconnect, and a stream that hangs.\<close>

definition good_commands :: "FtlCommand list" where
  "good_commands = [Connect (connect_map [1] [7]), Dot, Disconnect]"

definition connected_commands :: "FtlCommand list" where
  "connected_commands = [Connect (connect_map [1] [7]), Dot]"

definition hanging_commands :: "FtlCommand list" where
  "hanging_commands = [Ping, Attribute (attribute_map (str ''Video'') (str ''yes''))]"

lemma good_commands_ok: "list_all command_ok good_commands"
  by (simp add: good_commands_def valid_string_def) (simp add: eval_simps)

lemma connected_commands_ok: "list_all command_ok connected_commands"
  by (simp add: connected_commands_def valid_string_def) (simp add: eval_simps)

lemma hanging_commands_ok: "list_all command_ok hanging_commands"
  by (simp add: hanging_commands_def valid_string_def)
     (simp add: eval_simps trim_def is_whitespace_def)

lemma demo_good:
  "server_of (demo good_commands) =
     \<lparr> srv_phase = Closed, srv_state = new_state\<lparr>stream_key := Some [7], rtp_port := Some 7000\<rparr>,
       srv_read = good_commands, srv_sent = [Send [str ''200'' @ newline], dot_reply 7000],
       srv_calls = [Notify_Start [7], Allocate (Some 7000), Notify_End [7], Free 7000],
       srv_world = 1 \<rparr>"
  unfolding demo_server [OF good_commands_ok]
  by (simp add: good_commands_def server_eval new_state_def connect_map_def dot_reply_def)

lemma demo_connected:
  "server_of (demo connected_commands) =
     \<lparr> srv_phase = Waiting, srv_state = new_state\<lparr>stream_key := Some [7], rtp_port := Some 7000\<rparr>,
       srv_read = connected_commands, srv_sent = [Send [str ''200'' @ newline], dot_reply 7000],
       srv_calls = [Notify_Start [7], Allocate (Some 7000)], srv_world = 1 \<rparr>"
  unfolding demo_server [OF connected_commands_ok]
  by (simp add: connected_commands_def server_eval new_state_def connect_map_def dot_reply_def)


lemma server_of_parts:
  assumes "server_of s = sv"
  shows "state s = srv_state sv" "read_log s = srv_read sv" "sent_log s = srv_sent sv"
    "call_log s = srv_calls sv" "phase_of s = srv_phase sv"
  unfolding assms [symmetric] by (simp_all add: server_of_def)

lemma resting_closed:
  "resting ci ri s \<Longrightarrow> phase_of s = Closed \<Longrightarrow> frame s = Frame_Done \<and> conn s = Conn_Done"
  by (auto simp: resting_def phase_of_def quiet_def)

lemma resting_waiting: "resting ci ri s \<Longrightarrow> phase_of s = Waiting \<Longrightarrow> frame s = Reading \<and> conn s = Receiving"
  by (auto simp: resting_def phase_of_def quiet_def)


lemmas good_parts = server_of_parts [OF demo_good, simplified]
  resting_closed [OF demo_resting [OF good_commands_ok] server_of_parts(5) [OF demo_good, simplified]]


lemmas connected_parts = server_of_parts [OF demo_connected, simplified]
  resting_waiting [OF demo_resting [OF connected_commands_ok]
    server_of_parts(5) [OF demo_connected, simplified]]

text \<open>A session in the middle of answering a ping: two steps after reading it.\<close>

definition replying_demo :: "(nat, nat \<times> FtlCommand list, nat \<times> FrameCommand list) session" where
  "replying_demo = run_tasks 2 counting_net list_channel list_channel
     (frame_read (Next (Some (Inr Ping))) (init_session list_channel list_channel 0))"

lemma replying_demo_reachable: "reachable counting_net list_channel list_channel replying_demo"
  unfolding replying_demo_def
  by (intro run_tasks_reachable reachable.step [OF reachable.start session_step.read])
     (simp_all add: init_session_def)

lemma replying_demo_conn: "conn replying_demo = Replying (Send [str ''201'' @ newline]) True True"
  by code_simp

section \<open>The two tasks and their channels\<close>

text \<open>
  (C14) The command task never waits to send a reply and the send never fails: whenever it has
  a reply to send, the frame task is waiting for it and the channel has room, so its error
  branches are never taken.
\<close>

theorem reply_send_succeeds:
  assumes "session_channels cc ci ck rc ri rk" and "reachable net cc rc s"
    and "conn s = Replying reply ok failed"
  shows "frame s = Awaiting \<and> (\<exists>q. chan_push rc reply (replies s) = Some q \<and> ri q = [reply])"
proof -
  note inv = session_channels.reachable_lockstep [OF assms(1,2)]
  from session_channels.replying [OF assms(1) conjunct1 [OF inv] assms(3)]
  have "frame s = Awaiting" "ri (replies s) = []" by simp_all
  moreover have "rk (replies s) = 2"
    using inv by (simp add: session_channels.roomy_def [OF assms(1)])
  ultimately show ?thesis
    using bounded_channel.push_free [OF session_channels.axioms(2) [OF assms(1)], of "replies s" reply]
    by auto
qed

theorem reply_send_succeeds_witness:
  "frame replying_demo = Awaiting
    \<and> (\<exists>q. chan_push list_channel (Send [str ''201'' @ newline]) (replies replying_demo) = Some q
          \<and> snd q = [Send [str ''201'' @ newline]])"
  by (rule reply_send_succeeds
      [OF list_session.session_channels_axioms replying_demo_reachable replying_demo_conn])

text \<open>
  (C13) The tasks take turns: in no reachable session can both move, and at most one message is
  in the two channels together, so their capacity of 2 is never used up.
\<close>

theorem tasks_take_turns:
  assumes "session_channels cc ci ck rc ri rk" and "reachable net cc rc s"
  shows "(frame_step net cc rc s = None \<or> conn_step net cc rc s = None)
    \<and> length (ci (commands s)) + length (ri (replies s)) \<le> 1"
proof -
  from session_channels.reachable_lockstep [OF assms] have inv: "lockstep ci ri s" ..
  then have "length (ci (commands s)) + length (ri (replies s)) \<le> 1"
    by (auto simp: lockstep_def quiet_def pending_def Let_def
        split: frame_pc.splits list.splits conn_pc.splits)
  with session_channels.turns [OF assms(1) inv, of net] show ?thesis
    by (cases "frame_step net cc rc s") auto
qed

theorem tasks_take_turns_witness:
  "(frame_step counting_net list_channel list_channel replying_demo = None
      \<or> conn_step counting_net list_channel list_channel replying_demo = None)
    \<and> length (snd (commands replying_demo)) + length (snd (replies replying_demo)) \<le> 1"
  by (rule tasks_take_turns [OF list_session.session_channels_axioms replying_demo_reachable])

text \<open>
  (C6) Replies are in order: the n-th reply written to the socket answers the n-th command
  read from it, no reply is written before its command was read, and the next command is read
  only when every earlier one has been answered.
\<close>

theorem replies_in_order:
  assumes "session_channels cc ci ck rc ri rk" and "reachable net cc rc s"
  shows "list_all2 answers (take (length (sent_log s)) (read_log s)) (sent_log s)
    \<and> (frame s = Reading \<longrightarrow> length (sent_log s) = length (read_log s))"
proof -
  from session_channels.reachable_lockstep [OF assms] have inv: "lockstep ci ri s" ..
  have "list_all2 answers (take (length (sent_log s)) (read_log s)) (sent_log s)"
    if "list_all2 answers (butlast (read_log s)) (sent_log s)"
    using that list_all2_butlast_take [OF that] by simp
  moreover have "length (sent_log s) = length (read_log s)"
    if "list_all2 answers (read_log s) (sent_log s)"
    using list_all2_lengthD [OF that] by simp
  ultimately show ?thesis
    using inv by (auto simp: lockstep_def split: frame_pc.splits)
qed

theorem replies_in_order_witness:
  "list_all2 answers (take 2 connected_commands) [Send [str ''200'' @ newline], dot_reply 7000]
    \<and> 2 = length connected_commands"
proof -
  have "length connected_commands = 2" by (simp add: connected_commands_def)
  then show ?thesis
    using replies_in_order [OF list_session.session_channels_axioms
        demo_reachable [OF connected_commands_ok]]
    by (simp add: connected_parts(2,3) eval_nat_numeral)
qed

text \<open>
  (C3) The tasks come to rest: from no reachable session can they make more than six steps
  without a further read from the socket, six steps of the scheduler bring them to rest, and
  whatever steps the tasks have made before, they come to rest in the same session.
\<close>

theorem tasks_come_to_rest:
  assumes "session_channels cc ci ck rc ri rk" and "reachable net cc rc s"
    and "(task_step net cc rc ^^ n) s t"
  shows "n \<le> 6 \<and> at_rest net cc rc (run_tasks 6 net cc rc s)
    \<and> run_tasks 6 net cc rc t = run_tasks 6 net cc rc s"
proof -
  from session_channels.reachable_lockstep [OF assms(1,2)] have inv: "lockstep ci ri s" ..
  note bound = session_channels.work_bound [OF assms(1) inv]
  have "n \<le> 6" using session_channels.task_steps_work [OF assms(1,3)] bound by simp
  moreover have "at_rest net cc rc (run_tasks 6 net cc rc s)"
    using session_channels.run_tasks_at_rest [OF assms(1) bound] .
  moreover have "(task_step net cc rc)\<^sup>*\<^sup>* s t" using assms(3) by (rule relpowp_imp_rtranclp)
  then have "run_tasks 6 net cc rc t = run_tasks 6 net cc rc s"
    using session_channels.run_tasks_unique [OF assms(1) _ inv] by metis
  ultimately show ?thesis by blast
qed

lemma replying_demo_step:
  "(task_step counting_net list_channel list_channel ^^ 1) replying_demo
     (run_tasks 1 counting_net list_channel list_channel replying_demo)"
proof -
  have "frame_step counting_net list_channel list_channel replying_demo = None
      \<and> conn_step counting_net list_channel list_channel replying_demo \<noteq> None"
    by code_simp
  then show ?thesis by (auto simp: task_step_def)
qed

theorem tasks_come_to_rest_witness:
  "1 \<le> (6 :: nat)
    \<and> at_rest counting_net list_channel list_channel
         (run_tasks 6 counting_net list_channel list_channel replying_demo)
    \<and> run_tasks 6 counting_net list_channel list_channel
         (run_tasks 1 counting_net list_channel list_channel replying_demo)
      = run_tasks 6 counting_net list_channel list_channel replying_demo"
  by (rule tasks_come_to_rest [OF list_session.session_channels_axioms
      replying_demo_reachable replying_demo_step])

section \<open>Ports and streams\<close>

text \<open>
  (C4) No port leaks from a session that ends: when the command task has returned, the ports
  it has given back are exactly the ports it was given, each once, on every path out of the
  loop.
\<close>

theorem ports_returned:
  assumes "session_channels cc ci ck rc ri rk" and "reachable net cc rc s" and "conn s = Conn_Done"
  shows "ports_freed (call_log s) = ports_allocated (call_log s)"
  using session_channels.reachable_accounts [OF assms(1,2)] assms(3)
  by (simp add: accounts_ok_def closed_accounts_def)

theorem ports_returned_witness:
  "ports_freed [Notify_Start [7], Allocate (Some 7000), Notify_End [7], Free 7000]
    = ports_allocated [Notify_Start [7], Allocate (Some 7000), Notify_End [7], Free 7000]"
  using ports_returned [OF list_session.session_channels_axioms
      demo_reachable [OF good_commands_ok] conjunct2 [OF good_parts(6)]]
  by (simp only: good_parts)

text \<open>
  (C12) A session holds at most one port in its life, however many dots the client sends, the
  port it keeps is that one, and it frees no port before the command task returns.
\<close>

theorem one_port_per_session:
  assumes "session_channels cc ci ck rc ri rk" and "reachable net cc rc s"
  shows "ports_allocated (call_log s) = option_list (rtp_port (state s))
    \<and> (conn s \<noteq> Conn_Done \<longrightarrow> ports_freed (call_log s) = [] \<and> keys_ended (call_log s) = [])"
  using session_channels.reachable_accounts [OF assms]
  by (cases "conn s") (simp_all add: accounts_ok_def closed_accounts_def open_accounts_def)

theorem one_port_per_session_witness:
  "ports_allocated [Notify_Start [7], Allocate (Some 7000)] = option_list (Some (7000 :: u16))
    \<and> ports_freed [Notify_Start [7], Allocate (Some 7000)] = []
    \<and> keys_ended [Notify_Start [7], Allocate (Some 7000)] = []"
  using one_port_per_session [OF list_session.session_channels_axioms
      demo_reachable [OF connected_commands_ok]] connected_parts(6)
  unfolding connected_parts(1,4) by simp

text \<open>
  (C11) When the command task has returned, the end of the stream was announced exactly once,
  for the last key the client connected with and for no earlier one, except after a failed
  port allocation: then no end is announced at all, although the start was.
\<close>

theorem stream_end_announced:
  assumes "session_channels cc ci ck rc ri rk" and "reachable net cc rc s" and "conn s = Conn_Done"
  shows "keys_ended (call_log s)
    = (if alloc_failed (call_log s) then [] else option_list (last_option (keys_started (call_log s))))"
  using session_channels.reachable_accounts [OF assms(1,2)] assms(3)
  by (simp add: accounts_ok_def closed_accounts_def)

theorem stream_end_announced_witness:
  "keys_ended [Notify_Start [7], Allocate (Some 7000), Notify_End [7], Free 7000]
    = option_list (last_option [[7]])"
  using stream_end_announced [OF list_session.session_channels_axioms
      demo_reachable [OF good_commands_ok] conjunct2 [OF good_parts(6)]]
  unfolding good_parts by simp

section \<open>Ending and hanging\<close>





text \<open>
  (C9) And that deadlock is for ever, and leaks: a session with a port that reads such an
  attribute reaches a state from which no step of either task, of the socket or of the world
  ever leads out, and in which the port is never freed and the stream never ended.
\<close>

theorem bad_flag_hangs:
  assumes "session_channels cc ci ck rc ri rk" and "reachable net cc rc s"
    and "frame s = Reading" and "conn s = Receiving" and "command_ok command" and "bad_flag command"
  shows "\<exists>t. (session_step net cc rc)\<^sup>*\<^sup>* s t
    \<and> (\<forall>u. (session_step net cc rc)\<^sup>*\<^sup>* t u \<longrightarrow>
         stalled ci ri u \<and> ports_freed (call_log u) = [] \<and> keys_ended (call_log u) = []
         \<and> ports_allocated (call_log u) = option_list (rtp_port (state s)))"
proof -
  from session_channels.reachable_lockstep [OF assms(1,2)]
    session_channels.bad_flag_stalls [OF assms(1) _ _ assms(3-6)]
  obtain t where t: "(session_step net cc rc)\<^sup>*\<^sup>* s t" "stalled ci ri t"
    "call_log t = call_log s" "state t = state s" by blast
  have "open_accounts (state s) (call_log s)"
    using session_channels.reachable_accounts [OF assms(1,2)] assms(4)
    by (simp add: accounts_ok_def)
  with t(3) have leak: "ports_freed (call_log t) = []" "keys_ended (call_log t) = []"
    "ports_allocated (call_log t) = option_list (rtp_port (state s))"
    by (simp_all add: open_accounts_def)
  have "stalled ci ri u \<and> call_log u = call_log t" if "(session_step net cc rc)\<^sup>*\<^sup>* t u" for u
    using session_channels.stalled_forever [OF assms(1) that t(2)] by blast
  with t(1) leak show ?thesis by metis
qed

theorem bad_flag_hangs_witness:
  "\<exists>t. (session_step counting_net list_channel list_channel)\<^sup>*\<^sup>* (demo connected_commands) t
    \<and> (\<forall>u. (session_step counting_net list_channel list_channel)\<^sup>*\<^sup>* t u \<longrightarrow>
         stalled snd snd u \<and> ports_freed (call_log u) = [] \<and> keys_ended (call_log u) = []
         \<and> ports_allocated (call_log u) = [7000])"
proof -
  have "bad_flag (last hanging_commands)" and "command_ok (last hanging_commands)"
    using hanging_commands_ok
    by (simp_all add: hanging_commands_def bad_flag_def del: command_ok.simps)
  from bad_flag_hangs [OF list_session.session_channels_axioms
      demo_reachable [OF connected_commands_ok] _ _ this(2,1)]
  show ?thesis
    using connected_parts(6) unfolding connected_parts(1) by (simp add: option_list_def)
qed

section \<open>The sequential server\<close>

text \<open>
  (C1) The two tasks with their two channels implement the sequential server: for every
  network, every world and every sequence of socket events, serving the events leaves the
  connection state, the replies, the service calls, the world and the phase that the
  sequential server has after them.
\<close>

theorem serve_refines:
  assumes "session_channels cc ci ck rc ri rk" and "list_all event_ok evs"
  shows "server_of (serve net cc rc evs w) = fold (srv_event net) evs (new_server w)"
  using session_channels.serve_refines_server(1) [OF assms] .

theorem serve_refines_witness:
  "server_of (demo good_commands) =
     fold (srv_event counting_net) (commands_read good_commands) (new_server 0)"
  by (rule serve_refines [OF list_session.session_channels_axioms
      commands_read_ok [OF good_commands_ok]])

end
