(* ===== verification/Handshake.thy ===== *)
theory Handshake
  imports Guarantees
begin

text \<open>
  The FTL handshake from end to end: the bytes a client writes, cut into chunks by the network,
  through the decoder, the two tasks of the connection and the services, to the replies on the
  socket.
\<close>

section \<open>The client\<close>

text \<open>
  What a streaming client writes: an HMAC request, its connect, its attributes and the dot that
  asks for the port.
\<close>

definition handshake_lines :: "rstring \<Rightarrow> rstring \<Rightarrow> (rstring \<times> rstring) list \<Rightarrow> rstring list" where
  "handshake_lines channel key attrs =
     str ''HMAC'' # connect_line channel key
       # map (\<lambda>(k, v). attribute_line k v) attrs @ [str ''.'']"

definition handshake_commands ::
  "rstring \<Rightarrow> rstring \<Rightarrow> (rstring \<times> rstring) list \<Rightarrow> FtlCommand list" where
  "handshake_commands channel key attrs =
     HMAC # Connect (connect_map channel key)
       # map (\<lambda>(k, v). Attribute (attribute_map k v)) attrs @ [Dot]"

definition good_attribute :: "rstring \<times> rstring \<Rightarrow> bool" where
  "good_attribute attr \<longleftrightarrow>
     attribute_ok (fst attr) (snd attr) \<and> \<not> bad_flag (Attribute (attribute_map (fst attr) (snd attr)))"

lemma attribute_ok_plain: "attribute_ok key value \<Longrightarrow> plain_line (attribute_line key value)"
  by (simp add: attribute_ok_def plain_attribute_line)

lemma handshake_decodes:
  assumes "connect_ok channel key" and "list_all good_attribute attrs"
    and "concat chunks = concat (map frame_bytes (handshake_lines channel key attrs))"
  shows "feed new_codec [] chunks = (handshake_commands channel key attrs, Pending new_codec [])"
proof -
  let ?decodes = "\<lambda>s c. plain_line s \<and> decode_command new_codec s = Inr (Inr (Some c), new_codec)"
  have reset: "reset new_codec = new_codec" by (simp add: reset_def new_codec_def)
  have attrs: "list_all2 ?decodes (map (\<lambda>(k, v). attribute_line k v) attrs)
      (map (\<lambda>(k, v). Attribute (attribute_map k v)) attrs)"
    using assms(2)
    by (induction attrs)
       (auto simp: good_attribute_def attribute_ok_plain decode_attribute_line reset)
  have "?decodes (connect_line channel key) (Connect (connect_map channel key))"
    using assms(1) decode_connect_line [OF assms(1), of new_codec]
    by (simp add: connect_ok_def plain_connect_line reset)
  moreover have "?decodes (str ''HMAC'') HMAC" "?decodes (str ''.'') Dot"
    by (simp_all add: eval_simps)
  ultimately have all: "list_all2 ?decodes (handshake_lines channel key attrs)
      (handshake_commands channel key attrs)"
    using attrs by (simp add: handshake_lines_def handshake_commands_def list_all2_appendI)
  have "find_window delimiter [] = None" by code_simp
  from drain_texts [OF all this] assms(3) \<open>find_window delimiter [] = None\<close> show ?thesis by (simp add: feed_drain drain_Pending)
qed

section \<open>The server's side of it\<close>

text \<open>A socket on which every write succeeds.\<close>

definition sends_ok :: "('w, 'v) net \<Rightarrow> bool" where
  "sends_ok net \<longleftrightarrow> (\<forall>item w. fst (sock_send net item w) = Inr ())"

lemma send_all_ok: "sends_ok net \<Longrightarrow> fst (send_all net items w) = Inr ()"
proof (induction items arbitrary: w)
  case (Cons item items)
  obtain r w2 where "sock_send net item w = (r, w2)" by (cases "sock_send net item w")
  moreover from this Cons.prems have "r = Inr ()" unfolding sends_ok_def by (metis fst_conv)
  ultimately show ?case using Cons by simp
qed simp

lemma handle_frame_ok:
  assumes "sends_ok net"
  obtains w' where "handle_frame_command net (Some reply) w = (Inr (), w')"
proof (cases reply)
  case (Send items)
  with send_all_ok [OF assms, of items w] that show ?thesis
    by (cases "send_all net items w") (simp add: write_loop_rev)
qed

text \<open>One command that the command task answers and goes on after.\<close>

lemma srv_answered:
  assumes "sends_ok net" "srv_phase sv = Waiting"
    and "conn_recv net (Some command) (srv_state sv) (srv_world sv) = (st, calls, Reply reply ok failed, w)"
  shows "\<exists>w'. srv_event net (Next (Some (Inr command))) sv =
    \<lparr> srv_phase = (if ok then Waiting else Refusing), srv_state = st,
      srv_read = srv_read sv @ [command], srv_sent = srv_sent sv @ [reply],
      srv_calls = srv_calls sv @ calls, srv_world = w' \<rparr>"
proof -
  obtain w' where "handle_frame_command net (Some reply) w = (Inr (), w')"
    using handle_frame_ok [OF assms(1)] .
  with assms(2,3) show ?thesis
    by (cases sv) (auto simp: srv_event_def srv_command_def srv_reply_def)
qed

text \<open>The negotiation of the attributes.\<close>

definition negotiates :: "'w server \<Rightarrow> (rstring \<times> rstring) list \<Rightarrow> 'w server \<Rightarrow> bool" where
  "negotiates sv attrs sv' \<longleftrightarrow>
     srv_phase sv' = Waiting \<and> srv_calls sv' = srv_calls sv
     \<and> srv_sent sv' = srv_sent sv @ replicate (length attrs) (Send [[]])
     \<and> rtp_port (srv_state sv') = rtp_port (srv_state sv)
     \<and> stream_key (srv_state sv') = stream_key (srv_state sv)
     \<and> hmac_payload (srv_state sv') = hmac_payload (srv_state sv)
     \<and> negotiated (srv_state sv')
         = fold (\<lambda>(k, v). store_attribute k v) attrs (negotiated (srv_state sv))"

abbreviation attribute_events :: "(rstring \<times> rstring) list \<Rightarrow> frame_event list" where
  "attribute_events attrs \<equiv> commands_read (map (\<lambda>(k, v). Attribute (attribute_map k v)) attrs)"

lemma srv_attribute:
  assumes "sends_ok net" "srv_phase sv = Waiting" "\<not> bad_flag (Attribute (attribute_map k v))"
  shows "negotiates sv [(k, v)] (srv_event net (Next (Some (Inr (Attribute (attribute_map k v))))) sv)"
proof -
  from assms(3) obtain st where st: "set_attribute k v (srv_state sv) = Some st"
    using set_attribute_None_iff [of k v "srv_state sv"] by (auto simp: bad_flag_def)
  then have "conn_recv net (Some (Attribute (attribute_map k v))) (srv_state sv) (srv_world sv)
      = (st, [], Reply (Send [[]]) True True, srv_world sv)" by simp
  from srv_answered [OF assms(1,2) this] show ?thesis
    using set_attribute_frame [OF st] set_attribute_store [of "srv_state sv" k v] st
    by (auto simp: negotiates_def)
qed

lemma srv_attributes:
  assumes "sends_ok net" "srv_phase sv = Waiting" "list_all good_attribute attrs"
  shows "negotiates sv attrs (fold (srv_event net) (attribute_events attrs) sv)"
  using assms(2,3)
proof (induction attrs arbitrary: sv)
  case Nil
  then show ?case by (simp add: negotiates_def commands_read_def)
next
  case (Cons attr attrs)
  obtain k v where attr: "attr = (k, v)" by (cases attr)
  let ?sv = "srv_event net (Next (Some (Inr (Attribute (attribute_map k v))))) sv"
  have first: "negotiates sv [(k, v)] ?sv"
    using Cons.prems attr by (intro srv_attribute assms(1)) (simp_all add: good_attribute_def)
  then have "negotiates ?sv attrs (fold (srv_event net) (attribute_events attrs) ?sv)"
    using Cons.prems by (intro Cons.IH) (simp_all add: negotiates_def)
  with first attr show ?case by (simp add: negotiates_def commands_read_def)
qed

lemma conn_recv_hmac:
  "\<exists>payload w'. conn_recv net (Some HMAC) st w
    = (st\<lparr>hmac_payload := Some payload\<rparr>, [],
       Reply (Send [str ''200 '', payload, newline]) True True, w')"
  by (cases "generate_hmac net w") (simp add: get_payload_def)

lemma conn_recv_connect:
  "\<exists>w'. conn_recv net (Some (Connect (connect_map channel key))) st w
    = (st\<lparr>stream_key := Some key\<rparr>, [Notify_Start key], Reply (Send [str ''200'' @ newline]) True True, w')"
  by (cases "notify_stream_start net key w") simp

definition port_reply :: "u16 option \<Rightarrow> FrameCommand" where
  "port_reply port = (case port of Some p \<Rightarrow> dot_reply p | None \<Rightarrow> alloc_failed_reply)"

lemma conn_recv_dot:
  assumes "rtp_port st = None"
  shows "\<exists>port w'. conn_recv net (Some Dot) st w
    = (st\<lparr>rtp_port := port\<rparr>, [Allocate port], Reply (port_reply port) (port \<noteq> None) False, w')"
proof -
  obtain port w' where "allocate_port net w = (port, w')" by (cases "allocate_port net w")
  with assms have "ensure_port net st w = (st\<lparr>rtp_port := port\<rparr>, [Allocate port], w')"
    by (simp add: ensure_port_def)
  then show ?thesis by (cases port) (simp_all add: port_reply_def)
qed

text \<open>What a completed handshake leaves behind.\<close>

definition handshake_done ::
  "rstring \<Rightarrow> (rstring \<times> rstring) list \<Rightarrow> 'w server \<Rightarrow> bool" where
  "handshake_done key attrs sv \<longleftrightarrow>
     (\<exists>payload. hmac_payload (srv_state sv) = Some payload
       \<and> srv_sent sv = Send [str ''200 '', payload, newline] # Send [str ''200'' @ newline]
           # replicate (length attrs) (Send [[]]) @ [port_reply (rtp_port (srv_state sv))])
     \<and> stream_key (srv_state sv) = Some key
     \<and> negotiated (srv_state sv)
         = fold (\<lambda>(k, v). store_attribute k v) attrs (negotiated new_state)
     \<and> srv_calls sv = [Notify_Start key, Allocate (rtp_port (srv_state sv))]
     \<and> srv_phase sv = (if rtp_port (srv_state sv) = None then Refusing else Waiting)"

lemma negotiated_other [simp]:
  "negotiated (st\<lparr>hmac_payload := x\<rparr>) = negotiated st"
  "negotiated (st\<lparr>stream_key := x\<rparr>) = negotiated st"
  "negotiated (st\<lparr>rtp_port := port\<rparr>) = negotiated st"
  by (rule ext, simp add: negotiated_chain)+

lemma handshake_server:
  assumes "sends_ok net" "list_all good_attribute attrs"
  shows "handshake_done key attrs
    (fold (srv_event net) (commands_read (handshake_commands channel key attrs)) (new_server w))"
proof -
  let ?ev = "\<lambda>c. srv_event net (Next (Some (Inr c)))"
  let ?connect = "Connect (connect_map channel key)"
  have start: "srv_phase (new_server w) = Waiting" "srv_state (new_server w) = new_state"
    "srv_sent (new_server w) = []" "srv_calls (new_server w) = []"
    by (simp_all add: new_server_def)
  obtain payload w1 where hmac: "conn_recv net (Some HMAC) (srv_state (new_server w)) (srv_world (new_server w))
      = ((srv_state (new_server w))\<lparr>hmac_payload := Some payload\<rparr>, [], Reply (Send [str ''200 '', payload, newline]) True True, w1)"
    using conn_recv_hmac [of net "srv_state (new_server w)" "srv_world (new_server w)"] by blast
  define sv1 where "sv1 = ?ev HMAC (new_server w)"
  from srv_answered [OF assms(1) start(1) hmac] start
  have sv1: "srv_phase sv1 = Waiting" "srv_state sv1 = new_state\<lparr>hmac_payload := Some payload\<rparr>"
    "srv_sent sv1 = [Send [str ''200 '', payload, newline]]" "srv_calls sv1 = []"
    by (auto simp: sv1_def)
  define sv2 where "sv2 = ?ev ?connect sv1"
  obtain w2 where "conn_recv net (Some ?connect) (srv_state sv1) (srv_world sv1)
      = ((srv_state sv1)\<lparr>stream_key := Some key\<rparr>, [Notify_Start key],
         Reply (Send [str ''200'' @ newline]) True True, w2)"
    using conn_recv_connect [of net channel key "srv_state sv1" "srv_world sv1"] by blast
  from srv_answered [OF assms(1) sv1(1) this] sv1
  have sv2: "srv_phase sv2 = Waiting"
    "srv_state sv2 = new_state\<lparr>hmac_payload := Some payload, stream_key := Some key\<rparr>"
    "srv_sent sv2 = [Send [str ''200 '', payload, newline], Send [str ''200'' @ newline]]"
    "srv_calls sv2 = [Notify_Start key]"
    by (auto simp: sv2_def)
  define sv3 where "sv3 = fold (srv_event net) (attribute_events attrs) sv2"
  from srv_attributes [OF assms(1) sv2(1) assms(2)] sv2
  have sv3: "negotiates sv2 attrs sv3" and "rtp_port (srv_state sv3) = None"
    by (simp_all add: sv3_def negotiates_def new_state_def)
  from conn_recv_dot [OF this(2), of net "srv_world sv3"] obtain port w3
    where "conn_recv net (Some Dot) (srv_state sv3) (srv_world sv3)
      = ((srv_state sv3)\<lparr>rtp_port := port\<rparr>, [Allocate port],
         Reply (port_reply port) (port \<noteq> None) False, w3)" by blast
  from srv_answered [OF assms(1) _ this] sv3
  have "handshake_done key attrs (?ev Dot sv3)"
    using sv2 by (auto simp: handshake_done_def negotiates_def)
  then show ?thesis
    by (simp add: sv3_def sv2_def sv1_def handshake_commands_def commands_read_def)
qed

section \<open>The handshake\<close>

text \<open>
  (C2) The handshake, end to end: however the network cuts the bytes of a well-formed
  handshake into chunks, and whatever the world does, the connection answers the HMAC request
  with its payload, the connect with 200, every attribute with an empty line and the dot with
  the allocated port or the failure; its state then holds exactly the stream key and the
  attributes sent, the last one of a name winning, and the only service calls were the
  notification of the key and one port request.
\<close>

theorem handshake_completes:
  assumes "session_channels cc ci ck rc ri rk" and "sends_ok net"
    and "connect_ok channel key" and "list_all good_attribute attrs"
    and "concat chunks = concat (map frame_bytes (handshake_lines channel key attrs))"
  shows "handshake_done key attrs
    (server_of (serve net cc rc (commands_read (fst (feed new_codec [] chunks))) w))"
proof -
  have commands: "fst (feed new_codec [] chunks) = handshake_commands channel key attrs"
    using handshake_decodes [OF assms(3-5)] by simp
  have "list_all event_ok (commands_read (fst (feed new_codec [] chunks)))"
    by (intro commands_read_ok feed_ok)
  from session_channels.serve_refines_server(1) [OF assms(1) this]
  have "server_of (serve net cc rc (commands_read (handshake_commands channel key attrs)) w)
    = fold (srv_event net) (commands_read (handshake_commands channel key attrs)) (new_server w)"
    unfolding commands .
  with handshake_server [OF assms(2,4), of key channel w] show ?thesis unfolding commands by simp
qed

lemma counting_net_sends: "sends_ok counting_net"
  by (simp add: sends_ok_def counting_net_def)

theorem handshake_completes_witness:
  "handshake_done (str ''a1b2'') [(str ''Video'', str ''true'')]
    (server_of (serve counting_net list_channel list_channel
      (commands_read (fst (feed new_codec []
        [concat (map frame_bytes (handshake_lines (str ''77'') (str ''a1b2'')
           [(str ''Video'', str ''true'')]))]))) 0))"
proof (rule handshake_completes [OF list_session.session_channels_axioms counting_net_sends])
  show "connect_ok (str ''77'') (str ''a1b2'')"
    by (simp add: connect_ok_def connect_line_def eval_simps)
  have "attribute_ok (str ''Video'') (str ''true'')"
    by (simp add: attribute_ok_def attribute_line_def eval_simps trim_def is_whitespace_def)
  then show "list_all good_attribute [(str ''Video'', str ''true'')]"
    by (simp add: good_attribute_def bad_flag_def)
qed simp

end
