(* ===== verification/Ingest_Main.thy ===== *)
theory Ingest_Main
  imports Guarantees
begin

text \<open>
  The entry point of the ingest server (\<open>main.rs\<close>): the address it binds, the loggers it
  builds, and the loop that accepts sockets and starts a connection for each. The command line,
  the file system and the listener are fields of a record \<open>host\<close>; the results of the accepts
  come as a list, in the order in which they arrive.
\<close>

section \<open>The host\<close>

datatype logger = Term_Logger | Simple_Logger | Write_Logger rstring

record 'e host =
  arg_address :: "rstring option" 
    \<comment> \<open>\<open>matches.value_of("address")\<close>: the flag, or \<open>LS_INGEST_ADDR\<close> by \<open>cli.yml\<close>\<close>
  arg_log_file :: "rstring option" \<comment> \<open>\<open>matches.value_of("log-file")\<close>\<close>
  term_available :: bool \<comment> \<open>whether \<open>TermLogger::new\<close> yields a logger\<close>
  file_create :: "rstring \<Rightarrow> bool" \<comment> \<open>whether \<open>File::create\<close> succeeds\<close>
  tcp_bind :: "rstring \<Rightarrow> 'e option" \<comment> \<open>\<open>None\<close>: bound\<close>

section \<open>Address and loggers\<close>

definition default_bind_address :: rstring where
  "default_bind_address = str ''0.0.0.0''"

definition bind_address :: "rstring option \<Rightarrow> rstring" where
  "bind_address arg =
     (case arg of
        Some addr \<Rightarrow> (if addr = [] then default_bind_address else addr)
      | None \<Rightarrow> default_bind_address)"

definition listen_address :: "rstring option \<Rightarrow> rstring" where
  "listen_address arg = bind_address arg @ str '':8084''"

text \<open>The loggers; \<open>None\<close> is the panic of \<open>File::create(path).unwrap()\<close>.\<close>

definition make_loggers :: "'e host \<Rightarrow> logger list option" where
  "make_loggers h =
     (let loggers = [if term_available h then Term_Logger else Simple_Logger] in
      case arg_log_file h of
        Some path \<Rightarrow>
          (if path \<noteq> [] then
             (if file_create h path then Some (loggers @ [Write_Logger path]) else None)
           else Some loggers)
      | None \<Rightarrow> Some loggers)"

section \<open>The accept loop\<close>

text \<open>
  The sockets handed to \<open>Connection::init\<close>, and the error that ended the loop, \<open>None\<close> while it
  waits for the next socket.
\<close>

fun accept_loop :: "('e + 'sock) list \<Rightarrow> 'sock list \<times> 'e option" where
  "accept_loop [] = ([], None)"
| "accept_loop (Inl e # results) = ([], Some e)"
| "accept_loop (Inr sock # results) =
     (case accept_loop results of (socks, stop) \<Rightarrow> (sock # socks, stop))"

datatype 'e main_outcome = Log_File_Panic | Bind_Error 'e | Accept_Error 'e | Listening

definition ingest_main ::
  "'e host \<Rightarrow> ('e + 'sock) list \<Rightarrow> 'sock list \<times> 'e main_outcome" where
  "ingest_main h results =
     (let addr = listen_address (arg_address h) in
      case make_loggers h of
        None \<Rightarrow> ([], Log_File_Panic)
      | Some loggers \<Rightarrow>
          (case tcp_bind h addr of
             Some e \<Rightarrow> ([], Bind_Error e)
           | None \<Rightarrow>
               (case accept_loop results of
                  (socks, Some e) \<Rightarrow> (socks, Accept_Error e)
                | (socks, None) \<Rightarrow> (socks, Listening))))"

section \<open>Properties\<close>

lemma accept_loop_sockets: "fst (accept_loop results) = map projr (takeWhile (Not \<circ> isl) results)"
  by (induction results rule: accept_loop.induct) (auto split: prod.split)

lemma accept_loop_waits: "snd (accept_loop results) = None \<longleftrightarrow> list_all (Not \<circ> isl) results"
  by (induction results rule: accept_loop.induct) (auto split: prod.split)


text \<open>
  (C36) Once it listens, the ingest server starts exactly one connection for every socket it
  accepts, in the order of the accepts, up to the first accept that fails; that one failure,
  whatever its cause, ends the server.
\<close>

theorem main_spawns_until_error:
  assumes "make_loggers h \<noteq> None" and "tcp_bind h (listen_address (arg_address h)) = None"
  shows "fst (ingest_main h results) = map projr (takeWhile (Not \<circ> isl) results)
    \<and> (snd (ingest_main h results) = Listening \<longleftrightarrow> list_all (Not \<circ> isl) results)"
proof -
  obtain socks stop where loop: "accept_loop results = (socks, stop)"
    by (cases "accept_loop results")
  with assms have "ingest_main h results
      = (socks, case stop of Some e \<Rightarrow> Accept_Error e | None \<Rightarrow> Listening)"
    by (auto simp: ingest_main_def split: option.split)
  with loop accept_loop_sockets [of results] accept_loop_waits [of results] show ?thesis
    by (cases stop) simp_all
qed

definition plain_host :: "nat host" where
  "plain_host = \<lparr> arg_address = None, arg_log_file = None, term_available = True,
     file_create = (\<lambda>_. False), tcp_bind = (\<lambda>_. None) \<rparr>"

theorem main_spawns_until_error_witness:
  "fst (ingest_main plain_host [Inr (1 :: nat), Inr 2, Inl 24, Inr 3]) = [1, 2]
    \<and> \<not> (snd (ingest_main plain_host [Inr (1 :: nat), Inr 2, Inl 24, Inr 3]) = Listening)"
proof -
  have "make_loggers plain_host \<noteq> None" "tcp_bind plain_host (listen_address (arg_address plain_host)) = None"
    by (simp_all add: plain_host_def make_loggers_def)
  from main_spawns_until_error [OF this, of "[Inr (1 :: nat), Inr 2, Inl 24, Inr 3]"] show ?thesis by simp
qed


end
