(* ===== verification/Spec2Isabelle.thy ===== *)
theory Spec2Isabelle
  imports Handshake Ingest_Main
begin

text \<open>header\<close>

end
